theory Spec2Isabelle
  imports Main "HOL-Library.Word"
begin

unbundle bit_operations_syntax

section \<open>The SPI stack of the RED Brick (red\_stack.c)\<close>

text \<open>
  A shallow embedding of \<^verbatim>\<open>src/brickd/red_stack.c\<close>. Buffers are byte lists, the
  return value of the transceiver is the C \<^verbatim>\<open>int\<close> bit field as a 32-bit word,
  pointers to slaves are indices into the slave array, and the SPI device is a
  parameter: a function from its own state, the selected pin and the transmitted
  frame to the result of \<^verbatim>\<open>ioctl\<close>, the received bytes and its next state.
  The sleeps and the clock, the creation and the end of the thread, the steps of the
  initialisation that can fail, and the debug messages are left out. What the
  functions do to the world is recorded in the state: each call of the transceiver
  with the status of its slave at that time, the errors logged, the UIDs registered
  and the packets dispatched.
\<close>

subsection \<open>Constants\<close>

type_synonym u8 = "8 word"
type_synonym u32 = "32 word"

text \<open>A \<^verbatim>\<open>Packet\<close> is its \<^verbatim>\<open>sizeof(Packet)\<close> bytes; the header is
  \<^verbatim>\<open>uid\<close> (bytes 0 to 3), \<^verbatim>\<open>length\<close> (byte 4), function id, options, flags.\<close>

type_synonym packet = "u8 list"

definition SIZEOF_PACKET :: nat where
  \<comment> \<open>Modelled from the spec: \<^verbatim>\<open>sizeof(Packet)\<close> of daemonlib/packet.h, which is not
      among the sources; the spec gives the payload budget as 80 bytes.\<close>
  "SIZEOF_PACKET = 80"

definition SIZEOF_PACKET_HEADER :: nat where
  \<comment> \<open>Modelled from the spec: \<^verbatim>\<open>sizeof(PacketHeader)\<close> of daemonlib/packet.h; the
      spec gives an 8-byte header.\<close>
  "SIZEOF_PACKET_HEADER = 8"

definition PACKET_STACK_ENUMERATE_MAX_UIDS :: nat where
  \<comment> \<open>Modelled from the spec: the macro of daemonlib/packet.h; the spec gives N = 16.\<close>
  "PACKET_STACK_ENUMERATE_MAX_UIDS = 16"

definition FUNCTION_STACK_ENUMERATE :: u8 where
  \<comment> \<open>Modelled from the spec: the function id of daemonlib/packet.h, "the enumerate
      function"; its value is not given and no property depends on it.\<close>
  "FUNCTION_STACK_ENUMERATE = 252"

definition PACKET_HEADER_LENGTH :: nat where
  \<comment> \<open>offset of \<^verbatim>\<open>header.length\<close> in a Packet\<close>
  "PACKET_HEADER_LENGTH = 4"

definition RED_STACK_SPI_PACKET_SIZE :: nat where "RED_STACK_SPI_PACKET_SIZE = 84"
definition RED_STACK_SPI_PACKET_EMPTY_SIZE :: nat where "RED_STACK_SPI_PACKET_EMPTY_SIZE = 4"
definition RED_STACK_SPI_PREAMBLE_VALUE :: u8 where "RED_STACK_SPI_PREAMBLE_VALUE = 0xAA"
definition RED_STACK_SPI_PREAMBLE :: nat where "RED_STACK_SPI_PREAMBLE = 0"
definition RED_STACK_SPI_LENGTH :: nat where "RED_STACK_SPI_LENGTH = 1"
definition RED_STACK_SPI_INFO :: "nat \<Rightarrow> nat" where "RED_STACK_SPI_INFO len = len - 2"
definition RED_STACK_SPI_CHECKSUM :: "nat \<Rightarrow> nat" where "RED_STACK_SPI_CHECKSUM len = len - 1"
definition RED_STACK_SPI_INFO_BUSY :: u8 where "RED_STACK_SPI_INFO_BUSY = push_bit 0 1"
definition RED_STACK_SPI_MAX_SLAVES :: nat where "RED_STACK_SPI_MAX_SLAVES = 8"
definition RED_STACK_SPI_ROUTING_TRIES :: nat where "RED_STACK_SPI_ROUTING_TRIES = 10"

definition RED_STACK_TRANSCEIVE_DATA_SEND :: "32 word" where
  "RED_STACK_TRANSCEIVE_DATA_SEND = push_bit 8 1"
definition RED_STACK_TRANSCEIVE_DATA_RECEIVED :: "32 word" where
  "RED_STACK_TRANSCEIVE_DATA_RECEIVED = push_bit 7 1"
definition RED_STACK_TRANSCEIVE_RESULT_SEND_ERROR :: "32 word" where
  "RED_STACK_TRANSCEIVE_RESULT_SEND_ERROR = push_bit 0 1"
definition RED_STACK_TRANSCEIVE_RESULT_SEND_BUSY :: "32 word" where
  "RED_STACK_TRANSCEIVE_RESULT_SEND_BUSY = push_bit 0 2"
definition RED_STACK_TRANSCEIVE_RESULT_SEND_NONE :: "32 word" where
  "RED_STACK_TRANSCEIVE_RESULT_SEND_NONE = push_bit 0 3"
definition RED_STACK_TRANSCEIVE_RESULT_SEND_OK :: "32 word" where
  "RED_STACK_TRANSCEIVE_RESULT_SEND_OK = push_bit 0 4"
definition RED_STACK_TRANSCEIVE_RESULT_READ_ERROR :: "32 word" where
  "RED_STACK_TRANSCEIVE_RESULT_READ_ERROR = push_bit 3 1"
definition RED_STACK_TRANSCEIVE_RESULT_READ_NONE :: "32 word" where
  "RED_STACK_TRANSCEIVE_RESULT_READ_NONE = push_bit 3 2"
definition RED_STACK_TRANSCEIVE_RESULT_READ_OK :: "32 word" where
  "RED_STACK_TRANSCEIVE_RESULT_READ_OK = push_bit 3 3"

subsection \<open>Pearson hash\<close>

definition red_stack_spi_pearson_permutation :: "u8 list" where
  "red_stack_spi_pearson_permutation = [
    1, 87, 49, 12, 176, 178, 102, 166, 121, 193, 6, 84, 249, 230, 44, 163,
    14, 197, 213, 181, 161, 85, 218, 80, 64, 239, 24, 226, 236, 142, 38, 200,
    110, 177, 104, 103, 141, 253, 255, 50, 77, 101, 81, 18, 45, 96, 31, 222,
    25, 107, 190, 70, 86, 237, 240, 34, 72, 242, 20, 214, 244, 227, 149, 235,
    97, 234, 57, 22, 60, 250, 82, 175, 208, 5, 127, 199, 111, 62, 135, 248,
    174, 169, 211, 58, 66, 154, 106, 195, 245, 171, 17, 187, 182, 179, 0, 243,
    132, 56, 148, 75, 128, 133, 158, 100, 130, 126, 91, 13, 153, 246, 216, 219,
    119, 68, 223, 78, 83, 88, 201, 99, 122, 11, 92, 32, 136, 114, 52, 10,
    138, 30, 48, 183, 156, 35, 61, 26, 143, 74, 251, 94, 129, 162, 63, 152,
    170, 7, 115, 167, 241, 206, 3, 150, 55, 59, 151, 220, 90, 53, 23, 131,
    125, 173, 15, 238, 79, 95, 89, 16, 105, 137, 225, 224, 217, 160, 37, 123,
    118, 73, 2, 157, 46, 116, 9, 145, 134, 228, 207, 212, 202, 215, 69, 229,
    27, 188, 67, 124, 168, 252, 42, 4, 29, 108, 21, 247, 19, 205, 39, 203,
    233, 40, 186, 147, 198, 192, 155, 33, 164, 191, 98, 204, 165, 180, 117, 76,
    140, 36, 210, 172, 41, 54, 159, 8, 185, 232, 113, 196, 231, 47, 146, 120,
    51, 65, 28, 144, 254, 221, 93, 189, 194, 139, 112, 43, 71, 109, 184, 209]"

text \<open>\<^verbatim>\<open>PEARSON(cur, next)\<close>: one step of the hash.\<close>

definition PEARSON :: "u8 \<Rightarrow> u8 \<Rightarrow> u8" where
  "PEARSON cur next = red_stack_spi_pearson_permutation ! unat (cur XOR next)"

text \<open>The loop \<^verbatim>\<open>for(i = 0; i < length; i++)\<close> over \<^verbatim>\<open>data[i]\<close>, from the
  byte at index \<open>i\<close> on, with the running checksum.\<close>

function pearson_loop :: "u8 list \<Rightarrow> nat \<Rightarrow> nat \<Rightarrow> u8 \<Rightarrow> u8" where
  "pearson_loop data len i checksum =
     (if i < len then pearson_loop data len (i + 1) (PEARSON checksum (data ! i))
      else checksum)"
  by pat_completeness auto
termination
  by (relation "measure (\<lambda>(data, len, i, checksum). len - i)") auto

declare pearson_loop.simps [simp del]

definition red_stack_spi_calculate_pearson_hash :: "u8 list \<Rightarrow> u8 \<Rightarrow> u8" where
  "red_stack_spi_calculate_pearson_hash data len = pearson_loop data (unat len) 0 0"

subsection \<open>Slaves\<close>

datatype REDStackSlaveStatus =
  RED_STACK_SLAVE_STATUS_ABSENT
| RED_STACK_SLAVE_STATUS_AVAILABLE
| RED_STACK_SLAVE_STATUS_AVAILABLE_BUSY

text \<open>A \<^verbatim>\<open>GPIOPin\<close> is a port and a pin number; all select pins are on port C.\<close>

datatype GPIOPort = GPIO_PORT_C

type_synonym GPIOPin = "GPIOPort \<times> nat"

record REDStackSlave =
  stack_address :: u8
  status :: REDStackSlaveStatus
  slave_select_pin :: GPIOPin
  uids :: "u32 list"
  uids_num :: u8

subsection \<open>Log messages\<close>

text \<open>One constructor for each \<^verbatim>\<open>log_error\<close> call of the modelled functions, with
  the values it formats. The \<^verbatim>\<open>log_debug\<close> and \<^verbatim>\<open>log_info\<close> calls, and the
  counter \<^verbatim>\<open>uid_counter\<close> that only feeds one of them, are left out.\<close>

datatype log_entry =
  Error_send_length u8            \<comment> \<open>"Send length is greater then allowed: %d > %d"\<close>
| Error_not_present u8            \<comment> \<open>"Slave with stack address %d is not present in stack"\<close>
| Error_ioctl u8                  \<comment> \<open>"ioctl has unexpected return: %d != %d"\<close>
| Error_preamble u8               \<comment> \<open>"Received packet without proper preamble: %d != %d"\<close>
| Error_malformed_length u8       \<comment> \<open>"Received packet with malformed length: %d"\<close>
| Error_checksum u8 u8            \<comment> \<open>"Received packet with wrong checksum: %x != %x"\<close>
| Error_unknown_uid u32           \<comment> \<open>"Could not find UID %s in list of known SPI UIDs, discarding message"\<close>

subsection \<open>The transceiver\<close>

text \<open>\<^verbatim>\<open>memcpy(dst + off, src, n)\<close> on byte lists: the bytes of \<open>dst\<close> at
  \<open>off\<close> to \<open>off + n - 1\<close> become the first \<open>n\<close> bytes of \<open>src\<close>.\<close>

definition memcpy :: "u8 list \<Rightarrow> nat \<Rightarrow> u8 list \<Rightarrow> nat \<Rightarrow> u8 list" where
  "memcpy dst off src n =
     map (\<lambda>i. if off \<le> i \<and> i < off + n then src ! (i - off) else dst ! i) [0..<length dst]"

text \<open>Lines 243 to 273 of \<^verbatim>\<open>red_stack_spi_transceive_message\<close>: the frame to
  transmit, or the early \<^verbatim>\<open>goto ret\<close> with its return value and log message.\<close>

definition transceive_tx ::
  "packet option \<Rightarrow> REDStackSlave \<Rightarrow> (32 word \<times> log_entry) + (32 word \<times> u8 list)" where
  "transceive_tx packet_send slave =
    (let retval = 0;
         tx = replicate RED_STACK_SPI_PACKET_SIZE 0;
         tx = tx[RED_STACK_SPI_PREAMBLE := RED_STACK_SPI_PREAMBLE_VALUE];
         r = (if packet_send = None \<or> status slave = RED_STACK_SLAVE_STATUS_AVAILABLE_BUSY then
                Inr (retval OR RED_STACK_TRANSCEIVE_RESULT_SEND_NONE, tx[RED_STACK_SPI_LENGTH := 4])
              else if status slave = RED_STACK_SLAVE_STATUS_AVAILABLE then
                (let len = the packet_send ! PACKET_HEADER_LENGTH in
                 if unat len > SIZEOF_PACKET then
                   Inl (retval OR RED_STACK_TRANSCEIVE_RESULT_SEND_ERROR, Error_send_length len)
                 else
                   Inr (retval OR (RED_STACK_TRANSCEIVE_DATA_SEND OR RED_STACK_TRANSCEIVE_RESULT_SEND_OK),
                        memcpy (tx[RED_STACK_SPI_LENGTH := len + word_of_nat RED_STACK_SPI_PACKET_EMPTY_SIZE])
                          2 (the packet_send) (unat len)))
              else
                Inl (retval OR RED_STACK_TRANSCEIVE_RESULT_SEND_ERROR,
                     Error_not_present (stack_address slave)))
     in case r of
          Inl e \<Rightarrow> Inl e
        | Inr (retval, tx) \<Rightarrow>
            (let len = tx ! RED_STACK_SPI_LENGTH;
                 tx = tx[RED_STACK_SPI_INFO (unat len) := 0];
                 tx = tx[RED_STACK_SPI_CHECKSUM (unat len) :=
                           red_stack_spi_calculate_pearson_hash tx (len - 1)]
             in Inr (retval, tx)))"

text \<open>The result of one call: the return value, the receive packet and the slave as the
  call leaves them, the frame handed to the SPI transfer (none when the call returns
  before it), and the messages logged.\<close>

record transceive_result =
  ret_val :: "32 word"
  ret_packet_recv :: packet
  ret_slave :: REDStackSlave
  ret_tx :: "u8 list option"
  ret_log :: "log_entry list"

text \<open>Lines 293 to 342: the received frame is checked and copied.\<close>

definition transceive_rx ::
  "32 word \<Rightarrow> u8 list \<Rightarrow> u8 list \<Rightarrow> packet \<Rightarrow> REDStackSlave \<Rightarrow> transceive_result" where
  "transceive_rx retval tx rx packet_recv slave =
    (if rx ! RED_STACK_SPI_PREAMBLE \<noteq> RED_STACK_SPI_PREAMBLE_VALUE then
       (if rx ! RED_STACK_SPI_PREAMBLE = 0 then
          \<lparr>ret_val = retval OR RED_STACK_TRANSCEIVE_RESULT_READ_NONE, ret_packet_recv = packet_recv,
           ret_slave = slave, ret_tx = Some tx, ret_log = []\<rparr>
        else
          \<lparr>ret_val = retval OR RED_STACK_TRANSCEIVE_RESULT_READ_ERROR, ret_packet_recv = packet_recv,
           ret_slave = slave, ret_tx = Some tx,
           ret_log = [Error_preamble (rx ! RED_STACK_SPI_PREAMBLE)]\<rparr>)
     else
       (let len = rx ! RED_STACK_SPI_LENGTH in
        if unat len < RED_STACK_SPI_PACKET_EMPTY_SIZE + SIZEOF_PACKET_HEADER \<or>
           unat len > RED_STACK_SPI_PACKET_SIZE then
          \<lparr>ret_val = retval OR RED_STACK_TRANSCEIVE_RESULT_READ_ERROR, ret_packet_recv = packet_recv,
           ret_slave = slave, ret_tx = Some tx, ret_log = [Error_malformed_length len]\<rparr>
        else
          (let checksum = red_stack_spi_calculate_pearson_hash rx (len - 1) in
           if checksum \<noteq> rx ! RED_STACK_SPI_CHECKSUM (unat len) then
             \<lparr>ret_val = retval OR RED_STACK_TRANSCEIVE_RESULT_READ_ERROR, ret_packet_recv = packet_recv,
              ret_slave = slave, ret_tx = Some tx,
              ret_log = [Error_checksum checksum (rx ! RED_STACK_SPI_CHECKSUM (unat len))]\<rparr>
           else
             (let slave =
                (if rx ! RED_STACK_SPI_INFO (unat len) AND RED_STACK_SPI_INFO_BUSY \<noteq> 0 then
                   slave\<lparr>status := RED_STACK_SLAVE_STATUS_AVAILABLE_BUSY\<rparr>
                 else
                   slave\<lparr>status := RED_STACK_SLAVE_STATUS_AVAILABLE\<rparr>)
              in
              if unat len = RED_STACK_SPI_PACKET_EMPTY_SIZE then
                \<lparr>ret_val = retval OR RED_STACK_TRANSCEIVE_RESULT_READ_NONE, ret_packet_recv = packet_recv,
                 ret_slave = slave, ret_tx = Some tx, ret_log = []\<rparr>
              else
                \<lparr>ret_val = retval OR (RED_STACK_TRANSCEIVE_RESULT_READ_OK OR
                                      RED_STACK_TRANSCEIVE_DATA_RECEIVED),
                 ret_packet_recv = memcpy packet_recv 0 (drop 2 rx)
                                 (unat len - RED_STACK_SPI_PACKET_EMPTY_SIZE),
                 ret_slave = slave, ret_tx = Some tx, ret_log = []\<rparr>))))"

text \<open>The receive buffer of the transfer: \<^verbatim>\<open>rx\<close> starts as 84 zero bytes and the
  transfer writes what the device returned into it.\<close>

definition rx_buffer :: "u8 list \<Rightarrow> u8 list" where
  "rx_buffer received = take RED_STACK_SPI_PACKET_SIZE (received @ replicate RED_STACK_SPI_PACKET_SIZE 0)"

text \<open>\<^verbatim>\<open>red_stack_spi_transceive_message\<close>. The argument \<open>ioctl\<close> is the transfer
  with the slave selected: from the transmitted frame to the value \<^verbatim>\<open>ioctl\<close> returns
  and the bytes received. \<^verbatim>\<open>length_send\<close> is a \<^verbatim>\<open>uint8_t\<close>.\<close>

definition red_stack_spi_transceive_message ::
  "(u8 list \<Rightarrow> int \<times> u8 list) \<Rightarrow> packet option \<Rightarrow> packet \<Rightarrow> REDStackSlave \<Rightarrow> transceive_result" where
  "red_stack_spi_transceive_message ioctl packet_send packet_recv slave =
    (let packet_recv = packet_recv[PACKET_HEADER_LENGTH := 0] in
     case transceive_tx packet_send slave of
       Inl (retval, msg) \<Rightarrow>
         \<lparr>ret_val = retval, ret_packet_recv = packet_recv, ret_slave = slave, ret_tx = None,
          ret_log = [msg]\<rparr>
     | Inr (retval, tx) \<Rightarrow>
         (let (ret, received) = ioctl tx;
              rx = rx_buffer received;
              length_send = (word_of_int ret :: u8)
          in
          if unat length_send \<noteq> RED_STACK_SPI_PACKET_SIZE then
            \<lparr>ret_val = RED_STACK_TRANSCEIVE_RESULT_SEND_ERROR OR RED_STACK_TRANSCEIVE_RESULT_READ_ERROR,
             ret_packet_recv = packet_recv, ret_slave = slave, ret_tx = Some tx,
             ret_log = [Error_ioctl length_send]\<rparr>
          else transceive_rx retval tx rx packet_recv slave))"


subsection \<open>The stack and the world around it\<close>

text \<open>The SPI device with its chip-select lines: from its state, the pin driven low and
  the frame transmitted to the value of \<^verbatim>\<open>ioctl\<close>, the bytes received and its
  next state.\<close>

type_synonym 'd spi_device = "'d \<Rightarrow> GPIOPin \<Rightarrow> u8 list \<Rightarrow> (int \<times> u8 list) \<times> 'd"

text \<open>One call of the transceiver, as the thread made it: the slot of the slave, the
  status of the slave when called, whether a packet was passed to send, the value
  returned, and the frame transferred with the slave selected (none when the call
  returned before selecting it).\<close>

record transceive_call =
  call_slave :: nat
  call_status :: REDStackSlaveStatus
  call_request :: bool
  call_retval :: "32 word"
  call_tx :: "u8 list option"

text \<open>\<^verbatim>\<open>REDStack\<close>, with \<^verbatim>\<open>REDStackPacket\<close> as a pair of the slot of its slave
  and its packet, the cursor of the polling loop, and what the functions do to the
  world: the state of the SPI device, the UIDs passed to \<^verbatim>\<open>stack_add_uid\<close>, the
  packets passed to \<^verbatim>\<open>network_dispatch_response\<close>, the errors logged and the
  transceiver calls made.\<close>

record 'd REDStack =
  slaves :: "REDStackSlave list"
  slave_num :: u8
  packet_from_spi :: packet
  packet_to_spi_queue :: "(nat \<times> packet) list"
  stack_address_cycle :: u8
  spi_state :: 'd
  base_uids :: "u32 list"
  dispatched :: "packet list"
  log :: "log_entry list"
  calls :: "transceive_call list"

text \<open>A call of \<^verbatim>\<open>red_stack_spi_transceive_message\<close> on the slave in slot \<open>n\<close>
  of the stack: the value returned, the receive packet, and the stack after it.\<close>

definition transceive ::
  "'d spi_device \<Rightarrow> packet option \<Rightarrow> packet \<Rightarrow> nat \<Rightarrow> 'd REDStack
     \<Rightarrow> 32 word \<times> packet \<times> 'd REDStack" where
  "transceive dev packet_send packet_recv n s =
    (let sl = slaves s ! n;
         r = red_stack_spi_transceive_message
               (\<lambda>tx. fst (dev (spi_state s) (slave_select_pin sl) tx)) packet_send packet_recv sl
     in (ret_val r, ret_packet_recv r,
         s\<lparr>slaves := (slaves s)[n := ret_slave r],
           spi_state := (case ret_tx r of
                           None \<Rightarrow> spi_state s
                         | Some tx \<Rightarrow> snd (dev (spi_state s) (slave_select_pin sl) tx)),
           log := log s @ ret_log r,
           calls := calls s @ [\<lparr>call_slave = n, call_status = status sl,
                                call_request = (packet_send \<noteq> None),
                                call_retval = ret_val r, call_tx = ret_tx r\<rparr>]\<rparr>))"

subsection \<open>Lookup by UID\<close>

text \<open>\<^verbatim>\<open>red_stack_spi_get_slave_for_uid\<close>: the inner loop over the first
  \<^verbatim>\<open>uids_num\<close> UIDs of a slave, and the outer loop over the first
  \<^verbatim>\<open>slave_num\<close> slaves; the result is the slot of the slave, or None for NULL.\<close>

function uid_loop :: "REDStackSlave \<Rightarrow> u32 \<Rightarrow> nat \<Rightarrow> bool" where
  "uid_loop sl uid iu =
     (if iu < unat (uids_num sl) then
        (if uids sl ! iu = uid then True else uid_loop sl uid (iu + 1))
      else False)"
  by pat_completeness auto
termination
  by (relation "measure (\<lambda>(sl, uid, iu). unat (uids_num sl) - iu)") auto

declare uid_loop.simps [simp del]

function slave_loop :: "'d REDStack \<Rightarrow> u32 \<Rightarrow> nat \<Rightarrow> nat option" where
  "slave_loop s uid n =
     (if n < unat (slave_num s) then
        (if uid_loop (slaves s ! n) uid 0 then Some n else slave_loop s uid (n + 1))
      else None)"
  by pat_completeness auto
termination
  by (relation "measure (\<lambda>(s, uid, n). unat (slave_num s) - n)") auto

declare slave_loop.simps [simp del]

definition red_stack_spi_get_slave_for_uid :: "'d REDStack \<Rightarrow> u32 \<Rightarrow> nat option" where
  "red_stack_spi_get_slave_for_uid s uid = slave_loop s uid 0"

subsection \<open>Discovery\<close>

text \<open>A \<^verbatim>\<open>uint32_t\<close> read from a packet at a byte offset (the host is little
  endian), the UID of a packet header and the \<open>i\<close>-th UID of a
  \<^verbatim>\<open>StackEnumerateResponse\<close>, whose array follows the header.\<close>

definition uint32_at :: "packet \<Rightarrow> nat \<Rightarrow> u32" where
  "uint32_at p off =
     ucast (p ! off) OR push_bit 8 (ucast (p ! (off + 1))) OR
     push_bit 16 (ucast (p ! (off + 2))) OR push_bit 24 (ucast (p ! (off + 3)))"

definition header_uid :: "packet \<Rightarrow> u32" where
  "header_uid p = uint32_at p 0"

definition response_uids :: "packet \<Rightarrow> nat \<Rightarrow> u32" where
  \<comment> \<open>Modelled from the spec: \<^verbatim>\<open>StackEnumerateResponse\<close> is declared in
      daemonlib/packet.h, which is not among the sources; the spec gives a response
      "containing up to N UIDs", after the header that every packet begins with.\<close>
  "response_uids p i = uint32_at p (SIZEOF_PACKET_HEADER + 4 * i)"

text \<open>The \<^verbatim>\<open>StackEnumerateRequest\<close>: a header alone, with UID 0, its own size as
  length, the enumerate function, "return expected" and no flags.\<close>

definition stack_enumerate_request :: packet where
  \<comment> \<open>Modelled from the spec: \<^verbatim>\<open>StackEnumerateRequest\<close> is declared in
      daemonlib/packet.h; the initialiser of the source gives the five header fields,
      and \<^verbatim>\<open>sizeof(StackEnumerateRequest)\<close> is taken as the size of the header.\<close>
  "stack_enumerate_request =
     [0, 0, 0, 0, word_of_nat SIZEOF_PACKET_HEADER, FUNCTION_STACK_ENUMERATE, 0x08, 0]"

definition set_status :: "nat \<Rightarrow> REDStackSlaveStatus \<Rightarrow> 'd REDStack \<Rightarrow> 'd REDStack" where
  "set_status n st s = s\<lparr>slaves := (slaves s)[n := (slaves s ! n)\<lparr>status := st\<rparr>]\<rparr>"

text \<open>The two retry loops of \<^verbatim>\<open>red_stack_spi_create_routing_table\<close>; each returns
  \<^verbatim>\<open>tries\<close> as the loop leaves it, the local packet and the stack.\<close>

function send_loop ::
  "'d spi_device \<Rightarrow> nat \<Rightarrow> nat \<Rightarrow> packet \<Rightarrow> 'd REDStack \<Rightarrow> nat \<times> packet \<times> 'd REDStack" where
  "send_loop dev n tries pkt s =
     (if tries < RED_STACK_SPI_ROUTING_TRIES then
        (case transceive dev (Some stack_enumerate_request) pkt n s of
           (ret, pkt', s') \<Rightarrow>
             if ret AND RED_STACK_TRANSCEIVE_DATA_SEND \<noteq> 0 then (tries, pkt', s')
             else send_loop dev n (tries + 1) pkt' s')
      else (tries, pkt, s))"
  by pat_completeness auto
termination
  by (relation "measure (\<lambda>(dev, n, tries, pkt, s). RED_STACK_SPI_ROUTING_TRIES - tries)") auto

declare send_loop.simps [simp del]

function receive_loop ::
  "'d spi_device \<Rightarrow> nat \<Rightarrow> nat \<Rightarrow> packet \<Rightarrow> 'd REDStack \<Rightarrow> nat \<times> packet \<times> 'd REDStack" where
  "receive_loop dev n tries pkt s =
     (if tries < RED_STACK_SPI_ROUTING_TRIES then
        (case transceive dev None pkt n s of
           (ret, pkt', s') \<Rightarrow>
             if ret AND RED_STACK_TRANSCEIVE_DATA_RECEIVED \<noteq> 0 then (tries, pkt', s')
             else receive_loop dev n (tries + 1) pkt' s')
      else (tries, pkt, s))"
  by pat_completeness auto
termination
  by (relation "measure (\<lambda>(dev, n, tries, pkt, s). RED_STACK_SPI_ROUTING_TRIES - tries)") auto

declare receive_loop.simps [simp del]

text \<open>The loop over \<^verbatim>\<open>response->uids\<close>; it returns \<^verbatim>\<open>i\<close> as the loop leaves it.\<close>

function uids_loop :: "nat \<Rightarrow> nat \<Rightarrow> packet \<Rightarrow> 'd REDStack \<Rightarrow> nat \<times> 'd REDStack" where
  "uids_loop n i response s =
     (if i < PACKET_STACK_ENUMERATE_MAX_UIDS then
        (if response_uids response i \<noteq> 0 then
           uids_loop n (i + 1) response
             (s\<lparr>slaves := (slaves s)[n := (slaves s ! n)
                              \<lparr>uids := (uids (slaves s ! n))[i := response_uids response i]\<rparr>],
                base_uids := base_uids s @ [response_uids response i]\<rparr>)
         else (i, s))
      else (i, s))"
  by pat_completeness auto
termination
  by (relation "measure (\<lambda>(n, i, response, s). PACKET_STACK_ENUMERATE_MAX_UIDS - i)") auto

declare uids_loop.simps [simp del]

text \<open>The \<^verbatim>\<open>while\<close> loop over \<^verbatim>\<open>stack_address\<close>. The local \<^verbatim>\<open>Packet packet\<close>
  of the loop body is not initialised: \<open>uninit\<close> gives its bytes on entry, for each
  slot. The loop returns \<^verbatim>\<open>stack_address\<close> as it leaves it.\<close>

function routing_loop ::
  "'d spi_device \<Rightarrow> (nat \<Rightarrow> packet) \<Rightarrow> nat \<Rightarrow> 'd REDStack \<Rightarrow> nat \<times> 'd REDStack" where
  "routing_loop dev uninit stack_addr s =
     (if stack_addr < RED_STACK_SPI_MAX_SLAVES then
        (case send_loop dev stack_addr 0 (uninit stack_addr)
                (set_status stack_addr RED_STACK_SLAVE_STATUS_AVAILABLE s) of
           (tries, pkt, s1) \<Rightarrow>
             if tries = RED_STACK_SPI_ROUTING_TRIES then
               (stack_addr, set_status stack_addr RED_STACK_SLAVE_STATUS_ABSENT s1)
             else
               (case receive_loop dev stack_addr 0 pkt s1 of
                  (tries, pkt, s2) \<Rightarrow>
                    if tries = RED_STACK_SPI_ROUTING_TRIES then
                      (stack_addr, set_status stack_addr RED_STACK_SLAVE_STATUS_ABSENT s2)
                    else
                      (case uids_loop stack_addr 0 pkt s2 of
                         (i, s3) \<Rightarrow>
                           routing_loop dev uninit (stack_addr + 1)
                             (s3\<lparr>slaves := (slaves s3)[stack_addr :=
                                   (slaves s3 ! stack_addr)\<lparr>uids_num := word_of_nat i\<rparr>]\<rparr>))))
      else (stack_addr, s))"
  by pat_completeness auto
termination
  by (relation "measure (\<lambda>(dev, uninit, stack_addr, s). RED_STACK_SPI_MAX_SLAVES - stack_addr)") auto

declare routing_loop.simps [simp del]

definition red_stack_spi_create_routing_table ::
  "'d spi_device \<Rightarrow> (nat \<Rightarrow> packet) \<Rightarrow> 'd REDStack \<Rightarrow> 'd REDStack" where
  "red_stack_spi_create_routing_table dev uninit s =
     (case routing_loop dev uninit 0 s of
        (stack_addr, s') \<Rightarrow> s'\<lparr>slave_num := word_of_nat stack_addr\<rparr>)"

subsection \<open>The polling loop\<close>

text \<open>One iteration of the \<^verbatim>\<open>while\<close> loop of \<^verbatim>\<open>red_stack_spi_thread\<close>, without
  its sleeps. \<^verbatim>\<open>queue_peek\<close> is the head of the queue and \<^verbatim>\<open>queue_pop\<close> removes
  it. The dispatch of a received packet through the notification pipe, and the wait
  for it on the semaphore, are the packet passed to \<^verbatim>\<open>network_dispatch_response\<close>.\<close>

definition spi_thread_iteration :: "'d spi_device \<Rightarrow> 'd REDStack \<Rightarrow> 'd REDStack" where
  "spi_thread_iteration dev s =
    (let n = unat (stack_address_cycle s);
         s = s\<lparr>packet_from_spi := replicate SIZEOF_PACKET 0\<rparr>;
         (request, n, s) =
           (case packet_to_spi_queue s of
              [] \<Rightarrow>
                (let c = stack_address_cycle s + 1 in
                 (None, n, s\<lparr>stack_address_cycle := (if c \<ge> slave_num s then 0 else c)\<rparr>))
            | packet_to_spi # _ \<Rightarrow> (Some (snd packet_to_spi), fst packet_to_spi, s));
         (ret, pkt, s) = transceive dev request (packet_from_spi s) n s;
         s = s\<lparr>packet_from_spi := pkt\<rparr>;
         s = (if ret AND RED_STACK_TRANSCEIVE_DATA_SEND \<noteq> 0 then
                s\<lparr>packet_to_spi_queue := tl (packet_to_spi_queue s)\<rparr>
              else s)
     in if ret AND RED_STACK_TRANSCEIVE_DATA_RECEIVED \<noteq> 0 then
          s\<lparr>dispatched := dispatched s @ [packet_from_spi s]\<rparr>
        else s)"

subsection \<open>Initialisation and the entry point of the event thread\<close>

definition red_stack_slave_select_pins :: "GPIOPin list" where
  "red_stack_slave_select_pins =
     [(GPIO_PORT_C, 8), (GPIO_PORT_C, 9), (GPIO_PORT_C, 10), (GPIO_PORT_C, 11),
      (GPIO_PORT_C, 12), (GPIO_PORT_C, 13), (GPIO_PORT_C, 14), (GPIO_PORT_C, 15)]"

text \<open>The slaves as \<^verbatim>\<open>red_stack_init_spi\<close> initialises them, and the stack it leaves
  when every step succeeds: \<^verbatim>\<open>_red_stack\<close> is static, so what it does not set is
  zero, and the queue is empty.\<close>

definition init_slave :: "nat \<Rightarrow> REDStackSlave" where
  "init_slave n =
     \<lparr>stack_address = word_of_nat n, status = RED_STACK_SLAVE_STATUS_ABSENT,
      slave_select_pin = red_stack_slave_select_pins ! n,
      uids = replicate PACKET_STACK_ENUMERATE_MAX_UIDS 0, uids_num = 0\<rparr>"

definition red_stack_init_spi :: "'d \<Rightarrow> 'd REDStack" where
  "red_stack_init_spi d =
     \<lparr>slaves = map init_slave [0..<RED_STACK_SPI_MAX_SLAVES], slave_num = 0,
      packet_from_spi = replicate SIZEOF_PACKET 0, packet_to_spi_queue = [],
      stack_address_cycle = 0, spi_state = d, base_uids = [], dispatched = [],
      log = [], calls = []\<rparr>"

text \<open>The packet of a new queue entry: \<^verbatim>\<open>header.length\<close> bytes of the request are
  copied into it (the entry that \<^verbatim>\<open>queue_push\<close> returns is taken as zeroed, and a
  copy beyond the size of the entry is cut at its end).\<close>

definition queued_packet :: "packet \<Rightarrow> packet" where
  \<comment> \<open>Modelled from the spec: \<^verbatim>\<open>queue_push\<close> is in daemonlib/queue.c, which is not
      among the sources; the spec gives the packet of a work item as "a copy of the
      caller's request sized by its declared length".\<close>
  "queued_packet request =
     memcpy (replicate SIZEOF_PACKET 0) 0 request (unat (request ! PACKET_HEADER_LENGTH))"

text \<open>The broadcast loop of \<^verbatim>\<open>red_stack_dispatch_to_spi\<close>, from slot \<open>n\<close> on.\<close>

function broadcast_loop :: "packet \<Rightarrow> nat \<Rightarrow> 'd REDStack \<Rightarrow> 'd REDStack" where
  "broadcast_loop request n s =
     (if n < unat (slave_num s) then
        broadcast_loop request (n + 1)
          (s\<lparr>packet_to_spi_queue := packet_to_spi_queue s @ [(n, queued_packet request)]\<rparr>)
      else s)"
  by pat_completeness auto
termination
  by (relation "measure (\<lambda>(request, n, s). unat (slave_num s) - n)") auto

declare broadcast_loop.simps [simp del]

definition red_stack_dispatch_to_spi :: "packet \<Rightarrow> 'd REDStack \<Rightarrow> 'd REDStack" where
  "red_stack_dispatch_to_spi request s =
     (if header_uid request = 0 then broadcast_loop request 0 s
      else
        (case red_stack_spi_get_slave_for_uid s (header_uid request) of
           None \<Rightarrow> s\<lparr>log := log s @ [Error_unknown_uid (header_uid request)]\<rparr>
         | Some n \<Rightarrow>
             s\<lparr>packet_to_spi_queue := packet_to_spi_queue s @ [(n, queued_packet request)]\<rparr>))"

text \<open>The states of the stack: \<^verbatim>\<open>red_stack_init_spi\<close> starts the SPI thread, which
  runs the discovery and, when a slave was found, the polling loop; the event thread
  may dispatch a request at any time. While the discovery runs \<^verbatim>\<open>slave_num\<close> is
  still zero, so a dispatch in that time leaves the queue as it is.\<close>

inductive booting :: "'d \<Rightarrow> 'd REDStack \<Rightarrow> bool" for d where
  boot_init: "booting d (red_stack_init_spi d)"
| boot_dispatch: "booting d s \<Longrightarrow> booting d (red_stack_dispatch_to_spi request s)"

inductive running :: "'d spi_device \<Rightarrow> (nat \<Rightarrow> packet) \<Rightarrow> 'd \<Rightarrow> 'd REDStack \<Rightarrow> bool"
  for dev uninit d where
  run_discovered:
    "booting d s \<Longrightarrow> running dev uninit d (red_stack_spi_create_routing_table dev uninit s)"
| run_dispatch:
    "running dev uninit d s \<Longrightarrow> running dev uninit d (red_stack_dispatch_to_spi request s)"
| run_iteration:
    "running dev uninit d s \<Longrightarrow> slave_num s \<noteq> 0 \<Longrightarrow>
       running dev uninit d (spi_thread_iteration dev s)"

subsection \<open>Frames and devices used in the statements\<close>

text \<open>The frame without payload: preamble, length 4, info 0 and the checksum of
  these three bytes, then zeros.\<close>

definition poll_frame :: "u8 list" where
  "poll_frame = [0xAA, 4, 0, 0xF0] @ replicate 80 0"

text \<open>A slave that answers with the frame it is sent, under its own info byte and the
  checksum that goes with it; the transfer is complete.\<close>

definition slave_echo :: "u8 \<Rightarrow> u8 list \<Rightarrow> int \<times> u8 list" where
  "slave_echo info tx =
     (let len = tx ! RED_STACK_SPI_LENGTH;
          rx = tx[RED_STACK_SPI_INFO (unat len) := info];
          rx = rx[RED_STACK_SPI_CHECKSUM (unat len) := red_stack_spi_calculate_pearson_hash rx (len - 1)]
      in (84, rx))"

text \<open>The slave of slot 0 as initialised, in a given status.\<close>

definition example_slave :: "REDStackSlaveStatus \<Rightarrow> REDStackSlave" where
  "example_slave st = (init_slave 0)\<lparr>status := st\<rparr>"

text \<open>A request of eight bytes, its header alone.\<close>

definition example_request :: packet where
  "example_request = [1, 0, 0, 0, 8, 1, 0, 0] @ replicate 72 0"

text \<open>A slave knows a UID when it is among its first \<^verbatim>\<open>uids_num\<close> UIDs.\<close>

definition slave_knows :: "REDStackSlave \<Rightarrow> u32 \<Rightarrow> bool" where
  "slave_knows sl uid = (\<exists>iu < unat (uids_num sl). uids sl ! iu = uid)"

text \<open>A stack as a discovery that found \<open>k\<close> slaves leaves it, the slave of slot \<open>n\<close> with
  the single UID \<open>n + 1\<close>, on a device without state.\<close>

definition example_stack :: "nat \<Rightarrow> unit REDStack" where
  "example_stack k =
     (red_stack_init_spi ())\<lparr>slaves :=
        map (\<lambda>n. if n < k
                 then (init_slave n)\<lparr>status := RED_STACK_SLAVE_STATUS_AVAILABLE,
                        uids := (uids (init_slave n))[0 := word_of_nat n + 1], uids_num := 1\<rparr>
                 else init_slave n) [0..<RED_STACK_SPI_MAX_SLAVES],
        slave_num := word_of_nat k\<rparr>"

text \<open>A device on which every transfer is complete and no slave drives the line: all
  received bytes are zero.\<close>

definition silent_device :: "unit spi_device" where
  "silent_device d pin tx = ((84, []), d)"

text \<open>A device on which every transfer fails: \<^verbatim>\<open>ioctl\<close> returns -1.\<close>

definition failing_device :: "unit spi_device" where
  "failing_device d pin tx = ((-1, []), d)"

text \<open>The stack with one slave, known to be busy, and a request for it in the queue.\<close>

definition busy_stack :: "unit REDStack" where
  "busy_stack =
     (example_stack 1)\<lparr>slaves := (slaves (example_stack 1))
                          [0 := example_slave RED_STACK_SLAVE_STATUS_AVAILABLE_BUSY],
                        packet_to_spi_queue := [(0, example_request)]\<rparr>"

text \<open>The stack with one slave, available, and a request of declared length 81 for it
  in the queue.\<close>

definition oversize_stack :: "unit REDStack" where
  "oversize_stack =
     (example_stack 1)\<lparr>packet_to_spi_queue := [(0, [1, 0, 0, 0, 81] @ replicate 75 0)]\<rparr>"

text \<open>What a run of transceiver calls on the slave of slot \<open>n\<close>, all with or all without a
  packet to send, does to the stack: the calls \<open>cs\<close> are recorded, the status of that
  slave may change but not to absent, the device and the log move on, and nothing
  else changes.\<close>

definition probe_step ::
  "nat \<Rightarrow> bool \<Rightarrow> 'd REDStack \<Rightarrow> 'd REDStack \<Rightarrow> transceive_call list \<Rightarrow> bool" where
  "probe_step n req s s' cs \<longleftrightarrow>
     s' = s\<lparr>slaves := slaves s', spi_state := spi_state s', log := log s',
            calls := calls s @ cs\<rparr> \<and>
     (\<exists>st. st \<noteq> RED_STACK_SLAVE_STATUS_ABSENT \<and>
           slaves s' = (slaves s)[n := (slaves s ! n)\<lparr>status := st\<rparr>]) \<and>
     (\<forall>c \<in> set cs. call_slave c = n \<and> call_request c = req \<and>
                    call_status c \<noteq> RED_STACK_SLAVE_STATUS_ABSENT)"

text \<open>The UIDs of a slave are in order: the array has its 16 entries, and the entries
  below \<^verbatim>\<open>uids_num\<close> are exactly the non-zero ones.\<close>

definition uids_ok :: "REDStackSlave \<Rightarrow> bool" where
  "uids_ok sl \<longleftrightarrow>
     length (uids sl) = PACKET_STACK_ENUMERATE_MAX_UIDS \<and>
     unat (uids_num sl) \<le> PACKET_STACK_ENUMERATE_MAX_UIDS \<and>
     (\<forall>i < PACKET_STACK_ENUMERATE_MAX_UIDS. uids sl ! i \<noteq> 0 \<longleftrightarrow> i < unat (uids_num sl))"

text \<open>The number of calls on slot \<open>n\<close> that passed a packet and came back without
  \<^verbatim>\<open>DATA_SEND\<close>: the attempts of the send phase of the discovery that failed.\<close>

definition failed_sends :: "nat \<Rightarrow> transceive_call list \<Rightarrow> nat" where
  "failed_sends n cs =
     length (filter (\<lambda>c. call_slave c = n \<and> call_request c \<and>
                          call_retval c AND RED_STACK_TRANSCEIVE_DATA_SEND = 0) cs)"

text \<open>The number of calls on slot \<open>n\<close> that passed no packet and came back without
  \<^verbatim>\<open>DATA_RECEIVED\<close>: the attempts of the receive phase that failed.\<close>

definition failed_polls :: "nat \<Rightarrow> transceive_call list \<Rightarrow> nat" where
  "failed_polls n cs =
     length (filter (\<lambda>c. call_slave c = n \<and> \<not> call_request c \<and>
                          call_retval c AND RED_STACK_TRANSCEIVE_DATA_RECEIVED = 0) cs)"

text \<open>The discovery found the slave of slot \<open>n\<close>: it is not absent, its UIDs are in
  order, and neither phase used up its attempts.\<close>

definition slot_found :: "nat \<Rightarrow> 'd REDStack \<Rightarrow> bool" where
  "slot_found n s \<longleftrightarrow>
     status (slaves s ! n) \<noteq> RED_STACK_SLAVE_STATUS_ABSENT \<and> uids_ok (slaves s ! n) \<and>
     failed_sends n (calls s) < RED_STACK_SPI_ROUTING_TRIES \<and>
     failed_polls n (calls s) < RED_STACK_SPI_ROUTING_TRIES"

text \<open>The stack after a discovery that stopped at slot \<open>a\<close>: the slots below were found,
  the slots from \<open>a\<close> on are as initialised (absent, without UIDs), every call was
  on a slot up to \<open>a\<close> whose slave was not absent, and slot \<open>a\<close>, when there is one,
  used up the attempts of a phase.\<close>

definition discovered :: "nat \<Rightarrow> 'd REDStack \<Rightarrow> bool" where
  "discovered a s \<longleftrightarrow>
     a \<le> RED_STACK_SPI_MAX_SLAVES \<and> length (slaves s) = RED_STACK_SPI_MAX_SLAVES \<and>
     (\<forall>n < a. slot_found n s) \<and>
     (\<forall>n. a \<le> n \<and> n < RED_STACK_SPI_MAX_SLAVES \<longrightarrow> slaves s ! n = init_slave n) \<and>
     (\<forall>c \<in> set (calls s). call_slave c \<le> a \<and> call_slave c < RED_STACK_SPI_MAX_SLAVES \<and>
                            call_status c \<noteq> RED_STACK_SLAVE_STATUS_ABSENT) \<and>
     (a < RED_STACK_SPI_MAX_SLAVES \<longrightarrow>
        failed_sends a (calls s) = RED_STACK_SPI_ROUTING_TRIES \<or>
        failed_polls a (calls s) = RED_STACK_SPI_ROUTING_TRIES)"

text \<open>What holds of the stack from the end of the discovery on: the slots below
  \<^verbatim>\<open>slave_num\<close> have slaves that are not absent, with their UIDs in order; the slots
  from \<^verbatim>\<open>slave_num\<close> on are as initialised; every queue entry is for a slot below
  \<^verbatim>\<open>slave_num\<close>, and so is the cursor of the polling loop; and no call of the
  transceiver was made on an absent slave.\<close>

definition stack_inv :: "'d REDStack \<Rightarrow> bool" where
  "stack_inv s \<longleftrightarrow>
     length (slaves s) = RED_STACK_SPI_MAX_SLAVES \<and>
     unat (slave_num s) \<le> RED_STACK_SPI_MAX_SLAVES \<and>
     (\<forall>n < unat (slave_num s).
        status (slaves s ! n) \<noteq> RED_STACK_SLAVE_STATUS_ABSENT \<and> uids_ok (slaves s ! n)) \<and>
     (\<forall>n. unat (slave_num s) \<le> n \<and> n < RED_STACK_SPI_MAX_SLAVES \<longrightarrow>
        slaves s ! n = init_slave n) \<and>
     (\<forall>e \<in> set (packet_to_spi_queue s). fst e < unat (slave_num s)) \<and>
     (slave_num s \<noteq> 0 \<longrightarrow> unat (stack_address_cycle s) < unat (slave_num s)) \<and>
     (\<forall>c \<in> set (calls s). call_status c \<noteq> RED_STACK_SLAVE_STATUS_ABSENT)"

text \<open>A frame with an enumerate response of 16 bytes that lists the UIDs 1 and 2.\<close>

definition enumerate_response_frame :: "u8 list" where
  "enumerate_response_frame =
     [0xAA, 20, 0, 0, 0, 0, 16, 252, 0, 0, 1, 0, 0, 0, 2, 0, 0, 0, 0, 65]"

text \<open>A device with one slave, on the first select pin, that answers every frame without
  payload with the enumerate response and is silent otherwise.\<close>

definition one_slave_device :: "unit spi_device" where
  "one_slave_device d pin tx =
     (if pin = (GPIO_PORT_C, 8) \<and> tx ! RED_STACK_SPI_LENGTH = 4
      then ((84, enumerate_response_frame), d) else ((84, []), d))"

text \<open>The stack that the discovery leaves on this device, when the local packet of the
  discovery starts as zeros.\<close>

definition one_slave_stack :: "unit REDStack" where
  "one_slave_stack =
     red_stack_spi_create_routing_table one_slave_device (\<lambda>n. replicate 80 0)
       (red_stack_init_spi ())"

section \<open>Properties\<close>

lemmas red_stack_consts =
  SIZEOF_PACKET_def SIZEOF_PACKET_HEADER_def PACKET_STACK_ENUMERATE_MAX_UIDS_def
  PACKET_HEADER_LENGTH_def
  RED_STACK_SPI_PACKET_SIZE_def RED_STACK_SPI_PACKET_EMPTY_SIZE_def
  RED_STACK_SPI_PREAMBLE_VALUE_def RED_STACK_SPI_PREAMBLE_def RED_STACK_SPI_LENGTH_def
  RED_STACK_SPI_INFO_def RED_STACK_SPI_CHECKSUM_def RED_STACK_SPI_INFO_BUSY_def
  RED_STACK_SPI_MAX_SLAVES_def RED_STACK_SPI_ROUTING_TRIES_def
  RED_STACK_TRANSCEIVE_DATA_SEND_def RED_STACK_TRANSCEIVE_DATA_RECEIVED_def
  RED_STACK_TRANSCEIVE_RESULT_SEND_ERROR_def RED_STACK_TRANSCEIVE_RESULT_SEND_BUSY_def
  RED_STACK_TRANSCEIVE_RESULT_SEND_NONE_def RED_STACK_TRANSCEIVE_RESULT_SEND_OK_def
  RED_STACK_TRANSCEIVE_RESULT_READ_ERROR_def RED_STACK_TRANSCEIVE_RESULT_READ_NONE_def
  RED_STACK_TRANSCEIVE_RESULT_READ_OK_def

subsection \<open>Buffers and the checksum\<close>


lemma length_memcpy [simp]: "length (memcpy dst off src n) = length dst"
  by (simp add: memcpy_def)

lemma nth_memcpy:
  "i < length dst \<Longrightarrow>
     memcpy dst off src n ! i = (if off \<le> i \<and> i < off + n then src ! (i - off) else dst ! i)"
  by (simp add: memcpy_def)

lemma pearson_loop_cong:
  "(\<And>j. i \<le> j \<Longrightarrow> j < len \<Longrightarrow> a ! j = b ! j) \<Longrightarrow>
     pearson_loop a len i c = pearson_loop b len i c"
proof (induction a len i c rule: pearson_loop.induct)
  case (1 data len i checksum)
  show ?case
  proof (cases "i < len")
    case True
    have eq: "data ! i = b ! i" using 1(2) [of i] True by simp
    have "pearson_loop data len (i + 1) (PEARSON checksum (data ! i)) =
          pearson_loop b len (i + 1) (PEARSON checksum (data ! i))"
      using 1(1) [OF True] 1(2) by simp
    then show ?thesis
      using True eq by (subst pearson_loop.simps, subst (2) pearson_loop.simps) simp
  next
    case False
    then show ?thesis
      by (subst pearson_loop.simps, subst (2) pearson_loop.simps) simp
  qed
qed

lemma pearson_hash_cong:
  "(\<And>j. j < unat len \<Longrightarrow> a ! j = b ! j) \<Longrightarrow>
     red_stack_spi_calculate_pearson_hash a len = red_stack_spi_calculate_pearson_hash b len"
  unfolding red_stack_spi_calculate_pearson_hash_def by (rule pearson_loop_cong) simp

lemma pearson_loop_fold:
  "i \<le> len \<Longrightarrow> len \<le> length data \<Longrightarrow>
     pearson_loop data len i c = fold (\<lambda>b c. PEARSON c b) (drop i (take len data)) c"
proof (induction data len i c rule: pearson_loop.induct)
  case (1 data len i checksum)
  show ?case
  proof (cases "i < len")
    case True
    then have "i < length (take len data)" using 1(3) by simp
    from Cons_nth_drop_Suc [OF this]
    have "drop i (take len data) = data ! i # drop (i + 1) (take len data)"
      using True by simp
    then show ?thesis
      using True 1 by (subst pearson_loop.simps) simp
  next
    case False
    then show ?thesis using 1(2) by (subst pearson_loop.simps) simp
  qed
qed

subsection \<open>The transceiver\<close>

lemma poll_frame_built:
  "(let tx = (replicate 84 0)[0 := 0xAA, 1 := 4]; tx = tx[2 := 0] in
      tx[3 := red_stack_spi_calculate_pearson_hash tx 3]) = poll_frame"
  by code_simp

lemma transceive_tx_poll:
  "packet_send = None \<or> status sl = RED_STACK_SLAVE_STATUS_AVAILABLE_BUSY \<Longrightarrow>
     transceive_tx packet_send sl = Inr (RED_STACK_TRANSCEIVE_RESULT_SEND_NONE, poll_frame)"
  using poll_frame_built
  by (simp add: transceive_tx_def red_stack_consts Let_def)

lemma transceive_tx_request:
  assumes av: "status sl = RED_STACK_SLAVE_STATUS_AVAILABLE"
    and le: "unat (p ! 4) \<le> 80"
  shows "\<exists>tx. transceive_tx (Some p) sl =
            Inr (RED_STACK_TRANSCEIVE_DATA_SEND OR RED_STACK_TRANSCEIVE_RESULT_SEND_OK, tx) \<and>
          length tx = 84 \<and> tx ! 0 = 0xAA \<and> tx ! 1 = p ! 4 + 4 \<and>
          (\<forall>i < unat (p ! 4). tx ! (i + 2) = p ! i) \<and>
          tx ! (unat (p ! 4) + 2) = 0 \<and>
          tx ! (unat (p ! 4) + 3) = red_stack_spi_calculate_pearson_hash tx (p ! 4 + 3) \<and>
          (\<forall>i. unat (p ! 4) + 4 \<le> i \<and> i < 84 \<longrightarrow> tx ! i = 0)"
proof -
  define len where "len = p ! 4"
  define tx1 where "tx1 = memcpy ((replicate 84 0)[0 := 0xAA, 1 := len + 4]) 2 p (unat len)"
  define tx2 where "tx2 = tx1[unat len + 2 := 0]"
  define tx3 where "tx3 = tx2[unat len + 3 := red_stack_spi_calculate_pearson_hash tx2 (len + 3)]"
  have le': "unat len \<le> 80" using le by (simp add: len_def)
  have u4: "unat (len + 4) = unat len + 4" and u3: "unat (len + 3) = unat len + 3"
    using le' by (simp_all add: unat_word_ariths)
  have l1: "length tx1 = 84" by (simp add: tx1_def)
  have t11: "tx1 ! 1 = len + 4" by (simp add: tx1_def nth_memcpy)
  have t11': "memcpy ((replicate 84 0)[0 := 0xAA, Suc 0 := len + 4]) 2 p (unat len) ! Suc 0 = len + 4"
    by (simp add: nth_memcpy)
  have w3: "len + 4 - 1 = len + 3" by simp
  have eq: "transceive_tx (Some p) sl =
            Inr (RED_STACK_TRANSCEIVE_DATA_SEND OR RED_STACK_TRANSCEIVE_RESULT_SEND_OK, tx3)"
    unfolding tx3_def tx2_def tx1_def
    using av le' 
    by (simp add: transceive_tx_def Let_def red_stack_consts len_def [symmetric] t11' u4 w3 add.commute)
  have hash: "red_stack_spi_calculate_pearson_hash tx3 (len + 3) =
              red_stack_spi_calculate_pearson_hash tx2 (len + 3)"
    by (rule pearson_hash_cong) (simp add: tx3_def u3)
  have "length tx3 = 84" by (simp add: tx3_def tx2_def l1)
  moreover have "tx3 ! 0 = 0xAA" by (simp add: tx3_def tx2_def tx1_def nth_memcpy)
  moreover have "tx3 ! 1 = len + 4" using t11 by (simp add: tx3_def tx2_def)
  moreover have "\<forall>i < unat len. tx3 ! (i + 2) = p ! i"
    using le' by (simp add: tx3_def tx2_def tx1_def nth_memcpy)
  moreover have "tx3 ! (unat len + 2) = 0" using le' by (simp add: tx3_def tx2_def l1)
  moreover have "tx3 ! (unat len + 3) = red_stack_spi_calculate_pearson_hash tx3 (len + 3)"
    using le' hash by (simp add: tx3_def tx2_def l1)
  moreover have "\<forall>i. unat len + 4 \<le> i \<and> i < 84 \<longrightarrow> tx3 ! i = 0"
    using le' by (auto simp add: tx3_def tx2_def tx1_def nth_memcpy)
  ultimately show ?thesis using eq unfolding len_def by blast
qed

lemma or_received_bit: "((rv :: 32 word) OR (RED_STACK_TRANSCEIVE_RESULT_READ_OK OR RED_STACK_TRANSCEIVE_DATA_RECEIVED)) AND RED_STACK_TRANSCEIVE_DATA_RECEIVED \<noteq> 0"
proof -
  have "bit ((rv OR (RED_STACK_TRANSCEIVE_RESULT_READ_OK OR RED_STACK_TRANSCEIVE_DATA_RECEIVED)) AND RED_STACK_TRANSCEIVE_DATA_RECEIVED) 7"
    by (simp add: red_stack_consts bit_simps)
  then show ?thesis by auto
qed

lemma transceive_rx_ok:
  assumes "rx ! 0 = 0xAA" and "12 \<le> unat (rx ! 1)" and "unat (rx ! 1) \<le> 84"
    and "rx ! (unat (rx ! 1) - 1) = red_stack_spi_calculate_pearson_hash rx (rx ! 1 - 1)"
  shows "transceive_rx rv tx rx pr sl =
    \<lparr>ret_val = rv OR (RED_STACK_TRANSCEIVE_RESULT_READ_OK OR RED_STACK_TRANSCEIVE_DATA_RECEIVED),
     ret_packet_recv = memcpy pr 0 (drop 2 rx) (unat (rx ! 1) - 4),
     ret_slave = sl\<lparr>status := (if rx ! (unat (rx ! 1) - 2) AND 1 \<noteq> 0
                              then RED_STACK_SLAVE_STATUS_AVAILABLE_BUSY
                              else RED_STACK_SLAVE_STATUS_AVAILABLE)\<rparr>,
     ret_tx = Some tx, ret_log = []\<rparr>"
  using assms by (simp add: transceive_rx_def red_stack_consts Let_def)

lemma transceive_rx_packet:
  "ret_val (transceive_rx rv tx rx pr sl) AND RED_STACK_TRANSCEIVE_DATA_RECEIVED = 0 \<Longrightarrow>
     ret_packet_recv (transceive_rx rv tx rx pr sl) = pr"
  using or_received_bit [of rv]
  by (auto simp add: transceive_rx_def Let_def split: if_splits)

lemma transceive_tx_Inr:
  assumes "transceive_tx packet_send sl = Inr (rv, tx)"
  shows "(rv = RED_STACK_TRANSCEIVE_RESULT_SEND_NONE \<and> tx = poll_frame \<and>
           (packet_send = None \<or> status sl = RED_STACK_SLAVE_STATUS_AVAILABLE_BUSY)) \<or>
         (rv = (RED_STACK_TRANSCEIVE_DATA_SEND OR RED_STACK_TRANSCEIVE_RESULT_SEND_OK) \<and>
           status sl = RED_STACK_SLAVE_STATUS_AVAILABLE \<and>
           (\<exists>p. packet_send = Some p \<and> unat (p ! 4) \<le> 80))"
proof (cases "packet_send = None \<or> status sl = RED_STACK_SLAVE_STATUS_AVAILABLE_BUSY")
  case True
  then show ?thesis using assms transceive_tx_poll [OF True] by simp
next
  case False
  then obtain p where p: "packet_send = Some p" by auto
  show ?thesis
  proof (cases "status sl = RED_STACK_SLAVE_STATUS_AVAILABLE \<and> unat (p ! 4) \<le> 80")
    case True
    then show ?thesis using assms p transceive_tx_request [of sl p] by auto
  next
    case False
    then have "\<exists>e. transceive_tx packet_send sl = Inl e"
      using p \<open>\<not> (packet_send = None \<or> status sl = RED_STACK_SLAVE_STATUS_AVAILABLE_BUSY)\<close>
      by (auto simp add: transceive_tx_def Let_def red_stack_consts)
    then show ?thesis using assms by auto
  qed
qed

lemma transceive_tx_Inl:
  assumes "transceive_tx packet_send sl = Inl (rv, msg)"
  shows "rv = RED_STACK_TRANSCEIVE_RESULT_SEND_ERROR \<and>
         (\<exists>p. packet_send = Some p \<and>
            (if status sl = RED_STACK_SLAVE_STATUS_AVAILABLE
             then 80 < unat (p ! 4) \<and> msg = Error_send_length (p ! 4)
             else status sl = RED_STACK_SLAVE_STATUS_ABSENT \<and>
                  msg = Error_not_present (stack_address sl)))"
proof (cases "packet_send = None \<or> status sl = RED_STACK_SLAVE_STATUS_AVAILABLE_BUSY")
  case True
  then show ?thesis using assms transceive_tx_poll [OF True] by simp
next
  case False
  then obtain p where p: "packet_send = Some p" by auto
  show ?thesis
  proof (cases "status sl = RED_STACK_SLAVE_STATUS_AVAILABLE \<and> unat (p ! 4) \<le> 80")
    case True
    then show ?thesis using assms p transceive_tx_request [of sl p] by auto
  next
    case False
    then show ?thesis
      using assms p \<open>\<not> (packet_send = None \<or> status sl = RED_STACK_SLAVE_STATUS_AVAILABLE_BUSY)\<close>
      by (cases "status sl") (auto simp add: transceive_tx_def Let_def red_stack_consts split: if_splits)
  qed
qed

lemma message_no_data_received:
  assumes "ret_val (red_stack_spi_transceive_message ioctl packet_send pr sl) AND
             RED_STACK_TRANSCEIVE_DATA_RECEIVED = 0"
  shows "ret_packet_recv (red_stack_spi_transceive_message ioctl packet_send pr sl) =
           pr[PACKET_HEADER_LENGTH := 0]"
proof (cases "transceive_tx packet_send sl")
  case (Inl e)
  then show ?thesis
    by (cases e) (simp add: red_stack_spi_transceive_message_def)
next
  case (Inr b)
  obtain rv tx where b: "b = (rv, tx)" by (cases b)
  obtain ret received where io: "ioctl tx = (ret, received)" by (cases "ioctl tx")
  show ?thesis
  proof (cases "unat (word_of_int ret :: u8) \<noteq> RED_STACK_SPI_PACKET_SIZE")
    case True
    then show ?thesis
      using Inr b io by (simp add: red_stack_spi_transceive_message_def)
  next
    case False
    then have eq: "red_stack_spi_transceive_message ioctl packet_send pr sl =
        transceive_rx rv tx (rx_buffer received) (pr[PACKET_HEADER_LENGTH := 0]) sl"
      using Inr b io by (simp add: red_stack_spi_transceive_message_def)
    show ?thesis using assms unfolding eq by (rule transceive_rx_packet)
  qed
qed

text \<open>
  C10. Every call sets the length field of the receive packet to 0 first, and writes
  to the receive packet beyond that only when the value returned has
  \<^verbatim>\<open>DATA_RECEIVED\<close> set: for every outcome without it (send error, transport
  error, empty or malformed frame) the receive packet is the one passed in with its
  length field 0, unchanged otherwise.
\<close>

theorem receive_packet_without_data:
  assumes "r = red_stack_spi_transceive_message ioctl packet_send packet_recv sl"
    and "ret_val r AND RED_STACK_TRANSCEIVE_DATA_RECEIVED = 0"
  shows "ret_packet_recv r = packet_recv[PACKET_HEADER_LENGTH := 0] \<and>
         (PACKET_HEADER_LENGTH < length packet_recv \<longrightarrow>
            ret_packet_recv r ! PACKET_HEADER_LENGTH = 0)"
  using message_no_data_received [of ioctl packet_send packet_recv sl] assms by simp

theorem receive_packet_without_data_witness:
  "ret_val (red_stack_spi_transceive_message (\<lambda>tx. (84, [])) None (replicate 80 7)
      (example_slave RED_STACK_SLAVE_STATUS_AVAILABLE)) AND RED_STACK_TRANSCEIVE_DATA_RECEIVED = 0 \<and>
   ret_packet_recv (red_stack_spi_transceive_message (\<lambda>tx. (84, [])) None (replicate 80 7)
      (example_slave RED_STACK_SLAVE_STATUS_AVAILABLE)) = (replicate 80 7)[4 := 0] \<and>
   ret_packet_recv (red_stack_spi_transceive_message (\<lambda>tx. (84, [])) None (replicate 80 7)
      (example_slave RED_STACK_SLAVE_STATUS_AVAILABLE)) ! 4 = 0"
proof -
  have h: "ret_val (red_stack_spi_transceive_message (\<lambda>tx. (84, [])) None (replicate 80 7)
      (example_slave RED_STACK_SLAVE_STATUS_AVAILABLE)) AND RED_STACK_TRANSCEIVE_DATA_RECEIVED = 0"
    by code_simp
  show ?thesis
    using h receive_packet_without_data [OF refl h] by (simp add: PACKET_HEADER_LENGTH_def)
qed

lemma message_tx:
  "ret_tx (red_stack_spi_transceive_message ioctl packet_send pr sl) =
     (case transceive_tx packet_send sl of Inl e \<Rightarrow> None | Inr (rv, tx) \<Rightarrow> Some tx)"
  by (simp add: red_stack_spi_transceive_message_def transceive_rx_def Let_def
      split: sum.splits prod.splits)

lemma poll_frame_well_formed:
  "length poll_frame = 84 \<and> poll_frame ! 0 = 0xAA \<and> poll_frame ! 1 = 4 \<and>
   poll_frame ! 2 = 0 \<and> poll_frame ! 3 = red_stack_spi_calculate_pearson_hash poll_frame 3 \<and>
   (\<forall>i. 4 \<le> i \<and> i < 84 \<longrightarrow> poll_frame ! i = 0)"
proof -
  have "red_stack_spi_calculate_pearson_hash poll_frame 3 = 0xF0" by code_simp
  moreover have "\<forall>i. 4 \<le> i \<and> i < 84 \<longrightarrow> poll_frame ! i = 0"
    by (auto simp add: poll_frame_def nth_append nth_Cons split: nat.splits)
  ultimately show ?thesis by (simp add: poll_frame_def)
qed

text \<open>
  C8. A frame is assembled for a poll, for a busy slave, and for a request of declared
  length at most 80 to an available slave. Every frame assembled has 84 bytes, byte 0
  equal to 0xAA, a length byte between 4 and 84, the byte at index length - 1 equal
  to the Pearson hash of bytes 0 to length - 2 (the loop of the source, which is the
  fold of \<^verbatim>\<open>PEARSON\<close> over these bytes), and zero bytes from index length to 83.
\<close>

theorem tx_frame_well_formed:
  "(packet_send = None \<or> status sl = RED_STACK_SLAVE_STATUS_AVAILABLE_BUSY \<or>
      (status sl = RED_STACK_SLAVE_STATUS_AVAILABLE \<and>
       unat (the packet_send ! PACKET_HEADER_LENGTH) \<le> SIZEOF_PACKET)
    \<longrightarrow> ret_tx (red_stack_spi_transceive_message ioctl packet_send packet_recv sl) \<noteq> None) \<and>
   (ret_tx (red_stack_spi_transceive_message ioctl packet_send packet_recv sl) = Some tx
    \<longrightarrow> length tx = RED_STACK_SPI_PACKET_SIZE \<and>
        tx ! RED_STACK_SPI_PREAMBLE = 0xAA \<and>
        4 \<le> unat (tx ! RED_STACK_SPI_LENGTH) \<and> unat (tx ! RED_STACK_SPI_LENGTH) \<le> 84 \<and>
        tx ! (unat (tx ! RED_STACK_SPI_LENGTH) - 1) =
          red_stack_spi_calculate_pearson_hash tx (tx ! RED_STACK_SPI_LENGTH - 1) \<and>
        red_stack_spi_calculate_pearson_hash tx (tx ! RED_STACK_SPI_LENGTH - 1) =
          fold (\<lambda>b c. PEARSON c b) (take (unat (tx ! RED_STACK_SPI_LENGTH) - 1) tx) 0 \<and>
        (\<forall>i. unat (tx ! RED_STACK_SPI_LENGTH) \<le> i \<and> i < 84 \<longrightarrow> tx ! i = 0))"
proof (rule conjI; rule impI)
  assume a: "packet_send = None \<or> status sl = RED_STACK_SLAVE_STATUS_AVAILABLE_BUSY \<or>
      (status sl = RED_STACK_SLAVE_STATUS_AVAILABLE \<and>
       unat (the packet_send ! PACKET_HEADER_LENGTH) \<le> SIZEOF_PACKET)"
  show "ret_tx (red_stack_spi_transceive_message ioctl packet_send packet_recv sl) \<noteq> None"
  proof (cases "packet_send = None \<or> status sl = RED_STACK_SLAVE_STATUS_AVAILABLE_BUSY")
    case True
    then show ?thesis by (simp add: message_tx transceive_tx_poll)
  next
    case False
    then obtain p where p: "packet_send = Some p" by auto
    with a False have "status sl = RED_STACK_SLAVE_STATUS_AVAILABLE" "unat (p ! 4) \<le> 80"
      by (auto simp add: red_stack_consts)
    from transceive_tx_request [OF this] show ?thesis using p by (auto simp add: message_tx)
  qed
next
  assume "ret_tx (red_stack_spi_transceive_message ioctl packet_send packet_recv sl) = Some tx"
  then obtain rv where tx: "transceive_tx packet_send sl = Inr (rv, tx)"
    by (auto simp add: message_tx split: sum.splits)
  have wf: "length tx = 84 \<and> tx ! 0 = 0xAA \<and> 4 \<le> unat (tx ! 1) \<and> unat (tx ! 1) \<le> 84 \<and>
        tx ! (unat (tx ! 1) - 1) = red_stack_spi_calculate_pearson_hash tx (tx ! 1 - 1) \<and>
        (\<forall>i. unat (tx ! 1) \<le> i \<and> i < 84 \<longrightarrow> tx ! i = 0)"
    using transceive_tx_Inr [OF tx]
  proof
    assume "rv = RED_STACK_TRANSCEIVE_RESULT_SEND_NONE \<and> tx = poll_frame \<and>
           (packet_send = None \<or> status sl = RED_STACK_SLAVE_STATUS_AVAILABLE_BUSY)"
    then show ?thesis using poll_frame_well_formed by simp
  next
    assume "rv = (RED_STACK_TRANSCEIVE_DATA_SEND OR RED_STACK_TRANSCEIVE_RESULT_SEND_OK) \<and>
           status sl = RED_STACK_SLAVE_STATUS_AVAILABLE \<and>
           (\<exists>p. packet_send = Some p \<and> unat (p ! 4) \<le> 80)"
    then obtain p where p: "packet_send = Some p" "unat (p ! 4) \<le> 80"
      and av: "status sl = RED_STACK_SLAVE_STATUS_AVAILABLE" by auto
    from transceive_tx_request [OF av p(2)] tx p(1)
    have f: "length tx = 84" "tx ! 0 = 0xAA" "tx ! 1 = p ! 4 + 4"
      "tx ! (unat (p ! 4) + 3) = red_stack_spi_calculate_pearson_hash tx (p ! 4 + 3)"
      "\<forall>i. unat (p ! 4) + 4 \<le> i \<and> i < 84 \<longrightarrow> tx ! i = 0"
      by auto
    have u: "unat (tx ! 1) = unat (p ! 4) + 4" using p(2) f(3) by (simp add: unat_word_ariths)
    show ?thesis using f u p(2) by (simp add: add.commute)
  qed
  have "red_stack_spi_calculate_pearson_hash tx (tx ! 1 - 1) =
          fold (\<lambda>b c. PEARSON c b) (take (unat (tx ! 1) - 1) tx) 0"
  proof -
    have "unat (tx ! 1 - 1) = unat (tx ! 1) - 1"
      using wf by (simp add: unat_sub word_le_nat_alt)
    moreover have "unat (tx ! 1) - 1 \<le> length tx" using wf by arith
    ultimately show ?thesis
      using pearson_loop_fold [of 0 "unat (tx ! 1) - 1" tx 0]
      by (simp add: red_stack_spi_calculate_pearson_hash_def)
  qed
  then show "length tx = RED_STACK_SPI_PACKET_SIZE \<and>
        tx ! RED_STACK_SPI_PREAMBLE = 0xAA \<and>
        4 \<le> unat (tx ! RED_STACK_SPI_LENGTH) \<and> unat (tx ! RED_STACK_SPI_LENGTH) \<le> 84 \<and>
        tx ! (unat (tx ! RED_STACK_SPI_LENGTH) - 1) =
          red_stack_spi_calculate_pearson_hash tx (tx ! RED_STACK_SPI_LENGTH - 1) \<and>
        red_stack_spi_calculate_pearson_hash tx (tx ! RED_STACK_SPI_LENGTH - 1) =
          fold (\<lambda>b c. PEARSON c b) (take (unat (tx ! RED_STACK_SPI_LENGTH) - 1) tx) 0 \<and>
        (\<forall>i. unat (tx ! RED_STACK_SPI_LENGTH) \<le> i \<and> i < 84 \<longrightarrow> tx ! i = 0)"
    using wf by (simp add: red_stack_consts)
qed



lemma rx_buffer_full: "length xs = 84 \<Longrightarrow> rx_buffer xs = xs"
  by (simp add: rx_buffer_def red_stack_consts)

lemma length_rx_buffer [simp]: "length (rx_buffer xs) = 84"
  by (simp add: rx_buffer_def red_stack_consts)

theorem tx_frame_well_formed_witness:
  "status (example_slave RED_STACK_SLAVE_STATUS_AVAILABLE) = RED_STACK_SLAVE_STATUS_AVAILABLE \<and>
   unat (the (Some example_request) ! PACKET_HEADER_LENGTH) \<le> SIZEOF_PACKET \<and>
   ret_tx (red_stack_spi_transceive_message (\<lambda>tx. (84, [])) (Some example_request)
            (replicate 80 0) (example_slave RED_STACK_SLAVE_STATUS_AVAILABLE)) =
     Some ([0xAA, 12, 1, 0, 0, 0, 8, 1, 0, 0, 0, 134] @ replicate 72 0) \<and>
   red_stack_spi_calculate_pearson_hash ([0xAA, 12, 1, 0, 0, 0, 8, 1, 0, 0, 0, 134] @ replicate 72 0) 11 = 134 \<and>
   ([0xAA, 12, 1, 0, 0, 0, 8, 1, 0, 0, 0, 134] @ replicate 72 0) ! 12 = (0 :: u8) \<and>
   ([0xAA, 12, 1, 0, 0, 0, 8, 1, 0, 0, 0, 134] @ replicate 72 0) ! 83 = (0 :: u8)"
proof -
  have h1: "status (example_slave RED_STACK_SLAVE_STATUS_AVAILABLE) = RED_STACK_SLAVE_STATUS_AVAILABLE"
    by (simp add: example_slave_def)
  have h2: "unat (the (Some example_request) ! PACKET_HEADER_LENGTH) \<le> SIZEOF_PACKET"
    by (simp add: example_request_def red_stack_consts)
  have h3: "ret_tx (red_stack_spi_transceive_message (\<lambda>tx. (84, [])) (Some example_request)
            (replicate 80 0) (example_slave RED_STACK_SLAVE_STATUS_AVAILABLE)) =
     Some ([0xAA, 12, 1, 0, 0, 0, 8, 1, 0, 0, 0, 134] @ replicate 72 0)"
    by code_simp
  show ?thesis
    using h1 h2 h3
      tx_frame_well_formed [of "Some example_request"
        "example_slave RED_STACK_SLAVE_STATUS_AVAILABLE" "\<lambda>tx. (84, [])" "replicate 80 0"
        "[0xAA, 12, 1, 0, 0, 0, 8, 1, 0, 0, 0, 134] @ replicate 72 0"]
    by (simp add: red_stack_consts)
qed

subsection \<open>Received frames\<close>

text \<open>
  C2. A received frame with preamble 0xAA, length byte 4 and the right checksum (0xF0
  is the Pearson hash of 0xAA, 4, 0) is rejected by the length check, which asks for
  at least 4 + sizeof(PacketHeader) bytes: the call returns \<^verbatim>\<open>READ_ERROR\<close> and logs a
  malformed length, and the branch for length 4 further down is never reached.
\<close>

theorem headered_empty_frame_rejected:
  "red_stack_spi_calculate_pearson_hash [0xAA, 4, 0] 3 = 0xF0 \<and>
   red_stack_spi_transceive_message (\<lambda>tx. (84, [0xAA, 4, 0, 0xF0])) None (replicate 80 0)
     (example_slave RED_STACK_SLAVE_STATUS_AVAILABLE) =
   \<lparr>ret_val = RED_STACK_TRANSCEIVE_RESULT_SEND_NONE OR RED_STACK_TRANSCEIVE_RESULT_READ_ERROR,
    ret_packet_recv = replicate 80 0,
    ret_slave = example_slave RED_STACK_SLAVE_STATUS_AVAILABLE,
    ret_tx = Some poll_frame, ret_log = [Error_malformed_length 4]\<rparr>"
  by code_simp

text \<open>
  C1, as stated, fails: a request of declared length 5, sent to an available slave and
  received back as sent, is a frame of length 9, which the length check rejects.
\<close>

theorem roundtrip_short_payload_counterexample:
  "red_stack_spi_transceive_message (\<lambda>tx. (84, tx))
     (Some ([1, 0, 0, 0, 5] @ replicate 75 0)) (replicate 80 0)
     (example_slave RED_STACK_SLAVE_STATUS_AVAILABLE) =
   \<lparr>ret_val = RED_STACK_TRANSCEIVE_DATA_SEND OR RED_STACK_TRANSCEIVE_RESULT_SEND_OK OR
              RED_STACK_TRANSCEIVE_RESULT_READ_ERROR,
    ret_packet_recv = replicate 80 0,
    ret_slave = example_slave RED_STACK_SLAVE_STATUS_AVAILABLE,
    ret_tx = Some ([0xAA, 9, 1, 0, 0, 0, 5, 0, 74] @ replicate 75 0),
    ret_log = [Error_malformed_length 9]\<rparr>"
  by code_simp

lemma message_Inr:
  assumes "transceive_tx packet_send sl = Inr (rv, tx)" and "ioctl tx = (84, received)"
  shows "red_stack_spi_transceive_message ioctl packet_send pr sl =
           transceive_rx rv tx (rx_buffer received) (pr[PACKET_HEADER_LENGTH := 0]) sl"
  using assms by (simp add: red_stack_spi_transceive_message_def red_stack_consts)

text \<open>
  C1, amended. For every request of declared length between 8 and 80 sent to an
  available slave, and every info byte: when the slave answers with the frame built,
  under that info byte and its checksum, the call returns \<^verbatim>\<open>SEND_OK\<close> and
  \<^verbatim>\<open>READ_OK\<close> with both data flags, the receive packet holds the bytes of the
  request followed by its own bytes, and the status of the slave is busy or
  available as bit 0 of the info byte says.
\<close>

theorem frame_roundtrip:
  assumes av: "status sl = RED_STACK_SLAVE_STATUS_AVAILABLE"
    and lo: "SIZEOF_PACKET_HEADER \<le> unat (p ! PACKET_HEADER_LENGTH)"
    and hi: "unat (p ! PACKET_HEADER_LENGTH) \<le> SIZEOF_PACKET"
    and lp: "length p = SIZEOF_PACKET"
    and lr: "length packet_recv = SIZEOF_PACKET"
    and r: "r = red_stack_spi_transceive_message (slave_echo info) (Some p) packet_recv sl"
  shows "ret_val r = RED_STACK_TRANSCEIVE_DATA_SEND OR RED_STACK_TRANSCEIVE_RESULT_SEND_OK OR
                     RED_STACK_TRANSCEIVE_RESULT_READ_OK OR RED_STACK_TRANSCEIVE_DATA_RECEIVED \<and>
         take (unat (p ! PACKET_HEADER_LENGTH)) (ret_packet_recv r) =
           take (unat (p ! PACKET_HEADER_LENGTH)) p \<and>
         drop (unat (p ! PACKET_HEADER_LENGTH)) (ret_packet_recv r) =
           drop (unat (p ! PACKET_HEADER_LENGTH)) packet_recv \<and>
         ret_slave r = sl\<lparr>status := (if info AND RED_STACK_SPI_INFO_BUSY \<noteq> 0
                                       then RED_STACK_SLAVE_STATUS_AVAILABLE_BUSY
                                       else RED_STACK_SLAVE_STATUS_AVAILABLE)\<rparr>"
proof -
  define n where "n = unat (p ! 4)"
  have n: "8 \<le> n" "n \<le> 80" using lo hi by (simp_all add: n_def red_stack_consts)
  from transceive_tx_request [OF av] n(2) obtain tx where
    tx: "transceive_tx (Some p) sl =
           Inr (RED_STACK_TRANSCEIVE_DATA_SEND OR RED_STACK_TRANSCEIVE_RESULT_SEND_OK, tx)"
    and ltx: "length tx = 84" and tx0: "tx ! 0 = 0xAA" and tx1: "tx ! 1 = p ! 4 + 4"
    and pay: "\<forall>i < n. tx ! (i + 2) = p ! i"
    unfolding n_def by blast
  have u: "unat (tx ! 1) = n + 4" using n(2) tx1 by (simp add: n_def unat_word_ariths)
  have w: "tx ! 1 - 1 = p ! 4 + 3" using tx1 by simp
  have u3: "unat (p ! 4 + 3) = n + 3" using n(2) by (simp add: n_def unat_word_ariths)
  define rx1 where "rx1 = tx[n + 2 := info]"
  define rx where "rx = rx1[n + 3 := red_stack_spi_calculate_pearson_hash rx1 (p ! 4 + 3)]"
  have echo: "slave_echo info tx = (84, rx)"
    using u w by (simp add: slave_echo_def Let_def red_stack_consts rx_def rx1_def add.commute)
  have lrx: "length rx = 84" by (simp add: rx_def rx1_def ltx)
  have rx0: "rx ! 0 = 0xAA" using tx0 by (simp add: rx_def rx1_def)
  have rx1v: "rx ! 1 = p ! 4 + 4" using tx1 n by (simp add: rx_def rx1_def)
  have urx: "unat (rx ! 1) = n + 4" using u tx1 rx1v by simp
  have wrx: "rx ! 1 - 1 = p ! 4 + 3" using rx1v by simp
  have hash: "red_stack_spi_calculate_pearson_hash rx (p ! 4 + 3) =
              red_stack_spi_calculate_pearson_hash rx1 (p ! 4 + 3)"
    by (rule pearson_hash_cong) (simp add: rx_def u3)
  have i1: "unat (rx ! 1) - 1 = n + 3" and i2: "unat (rx ! 1) - 2 = n + 2"
    using urx by simp_all
  have c1: "rx ! (n + 3) = red_stack_spi_calculate_pearson_hash rx1 (p ! 4 + 3)"
    using n by (simp add: rx_def rx1_def ltx)
  have chk: "rx ! (unat (rx ! 1) - 1) = red_stack_spi_calculate_pearson_hash rx (rx ! 1 - 1)"
    unfolding i1 wrx hash by (rule c1)
  have c2: "rx ! (n + 2) = info"
    using n by (simp add: rx_def rx1_def ltx)
  have inf: "rx ! (unat (rx ! 1) - 2) = info"
    unfolding i2 by (rule c2)
  have rxpay: "\<forall>i < n. rx ! (i + 2) = p ! i"
    using pay by (simp add: rx_def rx1_def)
  have req: "r = transceive_rx (RED_STACK_TRANSCEIVE_DATA_SEND OR RED_STACK_TRANSCEIVE_RESULT_SEND_OK)
                   tx rx (packet_recv[PACKET_HEADER_LENGTH := 0]) sl"
    unfolding r using message_Inr [of "Some p" sl _ tx "slave_echo info" rx, OF tx echo] by (simp add: rx_buffer_full lrx)
  have ok: "r = \<lparr>ret_val = (RED_STACK_TRANSCEIVE_DATA_SEND OR RED_STACK_TRANSCEIVE_RESULT_SEND_OK) OR
                 (RED_STACK_TRANSCEIVE_RESULT_READ_OK OR RED_STACK_TRANSCEIVE_DATA_RECEIVED),
     ret_packet_recv = memcpy (packet_recv[PACKET_HEADER_LENGTH := 0]) 0 (drop 2 rx) (unat (rx ! 1) - 4),
     ret_slave = sl\<lparr>status := (if rx ! (unat (rx ! 1) - 2) AND 1 \<noteq> 0
                              then RED_STACK_SLAVE_STATUS_AVAILABLE_BUSY
                              else RED_STACK_SLAVE_STATUS_AVAILABLE)\<rparr>,
     ret_tx = Some tx, ret_log = []\<rparr>"
    unfolding req using n urx by (intro transceive_rx_ok rx0 chk) simp_all
  have pk: "ret_packet_recv r = memcpy (packet_recv[4 := 0]) 0 (drop 2 rx) n"
    unfolding ok using urx by (simp add: red_stack_consts)
  have "take n (ret_packet_recv r) = take n p"
  proof (rule nth_equalityI)
    show "length (take n (ret_packet_recv r)) = length (take n p)"
      using n lp lr by (simp add: pk red_stack_consts)
  next
    fix i assume "i < length (take n (ret_packet_recv r))"
    then have i: "i < n" by simp
    then show "take n (ret_packet_recv r) ! i = take n p ! i"
      using n lr lrx rxpay by (simp add: pk nth_memcpy red_stack_consts)
  qed
  moreover have "drop n (ret_packet_recv r) = drop n packet_recv"
  proof (rule nth_equalityI)
    show "length (drop n (ret_packet_recv r)) = length (drop n packet_recv)"
      by (simp add: pk)
  next
    fix i assume "i < length (drop n (ret_packet_recv r))"
    then have "n + i < length packet_recv" by (simp add: pk)
    then show "drop n (ret_packet_recv r) ! i = drop n packet_recv ! i"
      using n by (simp add: pk nth_memcpy)
  qed
  moreover have "ret_val r = RED_STACK_TRANSCEIVE_DATA_SEND OR RED_STACK_TRANSCEIVE_RESULT_SEND_OK OR
                     RED_STACK_TRANSCEIVE_RESULT_READ_OK OR RED_STACK_TRANSCEIVE_DATA_RECEIVED"
    unfolding ok by (simp add: ac_simps)
  moreover have "ret_slave r = sl\<lparr>status := (if info AND RED_STACK_SPI_INFO_BUSY \<noteq> 0
                                       then RED_STACK_SLAVE_STATUS_AVAILABLE_BUSY
                                       else RED_STACK_SLAVE_STATUS_AVAILABLE)\<rparr>"
    unfolding ok using inf by (simp add: red_stack_consts)
  ultimately show ?thesis by (simp add: n_def red_stack_consts)
qed

theorem frame_roundtrip_witness:
  "status (example_slave RED_STACK_SLAVE_STATUS_AVAILABLE) = RED_STACK_SLAVE_STATUS_AVAILABLE \<and>
   SIZEOF_PACKET_HEADER \<le> unat (example_request ! PACKET_HEADER_LENGTH) \<and>
   unat (example_request ! PACKET_HEADER_LENGTH) \<le> SIZEOF_PACKET \<and>
   length example_request = SIZEOF_PACKET \<and>
   length (replicate 80 (7 :: u8)) = SIZEOF_PACKET \<and>
   ret_val (red_stack_spi_transceive_message (slave_echo 1) (Some example_request)
      (replicate 80 7) (example_slave RED_STACK_SLAVE_STATUS_AVAILABLE)) = 412 \<and>
   take 8 (ret_packet_recv (red_stack_spi_transceive_message (slave_echo 1) (Some example_request)
      (replicate 80 7) (example_slave RED_STACK_SLAVE_STATUS_AVAILABLE))) = [1, 0, 0, 0, 8, 1, 0, 0] \<and>
   drop 8 (ret_packet_recv (red_stack_spi_transceive_message (slave_echo 1) (Some example_request)
      (replicate 80 7) (example_slave RED_STACK_SLAVE_STATUS_AVAILABLE))) = replicate 72 7 \<and>
   ret_slave (red_stack_spi_transceive_message (slave_echo 1) (Some example_request)
      (replicate 80 7) (example_slave RED_STACK_SLAVE_STATUS_AVAILABLE)) =
     example_slave RED_STACK_SLAVE_STATUS_AVAILABLE_BUSY"
proof -
  have h1: "status (example_slave RED_STACK_SLAVE_STATUS_AVAILABLE) = RED_STACK_SLAVE_STATUS_AVAILABLE"
    by (simp add: example_slave_def)
  have h2: "SIZEOF_PACKET_HEADER \<le> unat (example_request ! PACKET_HEADER_LENGTH)"
    and h3: "unat (example_request ! PACKET_HEADER_LENGTH) \<le> SIZEOF_PACKET"
    and h4: "length example_request = SIZEOF_PACKET"
    by (simp_all add: example_request_def red_stack_consts)
  have h5: "length (replicate 80 (7 :: u8)) = SIZEOF_PACKET"
    by (simp add: red_stack_consts)
  have e: "example_request ! PACKET_HEADER_LENGTH = 8"
    by (simp add: example_request_def red_stack_consts)
  show ?thesis
    using h1 h2 h3 h4 h5 frame_roundtrip [OF h1 h2 h3 h4 h5 refl, of 1]
    by (simp add: e red_stack_consts example_slave_def) (simp add: example_request_def)
qed

subsection \<open>Lookup by UID and the entry point of the event thread\<close>

lemma uid_loop_iff:
  "uid_loop sl uid iu = (\<exists>j. iu \<le> j \<and> j < unat (uids_num sl) \<and> uids sl ! j = uid)"
proof (induction sl uid iu rule: uid_loop.induct)
  case (1 sl uid iu)
  show ?case
  proof (cases "iu < unat (uids_num sl)")
    case False
    then show ?thesis by (subst uid_loop.simps) auto
  next
    case True
    show ?thesis
    proof (cases "uids sl ! iu = uid")
      case True
      with \<open>iu < unat (uids_num sl)\<close> show ?thesis by (subst uid_loop.simps) auto
    next
      case False
      have "(\<exists>j. iu \<le> j \<and> j < unat (uids_num sl) \<and> uids sl ! j = uid) =
            (\<exists>j. iu + 1 \<le> j \<and> j < unat (uids_num sl) \<and> uids sl ! j = uid)"
        using False by (metis Suc_eq_plus1 Suc_leI Suc_leD le_neq_implies_less)
      then show ?thesis
        using 1 [OF True False] True False by (subst uid_loop.simps) simp
    qed
  qed
qed

lemma uid_loop_knows: "uid_loop sl uid 0 = slave_knows sl uid"
  by (simp add: uid_loop_iff slave_knows_def)

lemma slave_loop_Some:
  "slave_loop s uid n = Some k \<longleftrightarrow>
     n \<le> k \<and> k < unat (slave_num s) \<and> slave_knows (slaves s ! k) uid \<and>
     (\<forall>j. n \<le> j \<and> j < k \<longrightarrow> \<not> slave_knows (slaves s ! j) uid)"
proof (induction s uid n rule: slave_loop.induct)
  case (1 s uid n)
  show ?case
  proof (cases "n < unat (slave_num s)")
    case False
    then show ?thesis by (subst slave_loop.simps) auto
  next
    case True
    show ?thesis
    proof (cases "slave_knows (slaves s ! n) uid")
      case k: True
      have "slave_loop s uid n = Some n"
        using True k by (subst slave_loop.simps) (simp add: uid_loop_knows)
      moreover have "(n \<le> k \<and> k < unat (slave_num s) \<and> slave_knows (slaves s ! k) uid \<and>
          (\<forall>j. n \<le> j \<and> j < k \<longrightarrow> \<not> slave_knows (slaves s ! j) uid)) = (k = n)"
        using True k by (metis le_neq_implies_less order_refl le_antisym not_less)
      ultimately show ?thesis by auto
    next
      case nk: False
      have eq: "slave_loop s uid n = slave_loop s uid (n + 1)"
        using True nk by (subst slave_loop.simps) (simp add: uid_loop_knows)
      have ih: "slave_loop s uid (n + 1) = Some k \<longleftrightarrow>
          n + 1 \<le> k \<and> k < unat (slave_num s) \<and> slave_knows (slaves s ! k) uid \<and>
          (\<forall>j. n + 1 \<le> j \<and> j < k \<longrightarrow> \<not> slave_knows (slaves s ! j) uid)"
        using 1 [OF True] nk by (simp add: uid_loop_knows)
      have "(n + 1 \<le> k \<and> k < unat (slave_num s) \<and> slave_knows (slaves s ! k) uid \<and>
          (\<forall>j. n + 1 \<le> j \<and> j < k \<longrightarrow> \<not> slave_knows (slaves s ! j) uid)) =
         (n \<le> k \<and> k < unat (slave_num s) \<and> slave_knows (slaves s ! k) uid \<and>
          (\<forall>j. n \<le> j \<and> j < k \<longrightarrow> \<not> slave_knows (slaves s ! j) uid))"
        using nk by (metis Suc_eq_plus1 Suc_leI Suc_leD le_neq_implies_less)
      then show ?thesis using eq ih by simp
    qed
  qed
qed

lemma slave_loop_None:
  "slave_loop s uid n = None \<longleftrightarrow>
     (\<forall>j. n \<le> j \<and> j < unat (slave_num s) \<longrightarrow> \<not> slave_knows (slaves s ! j) uid)"
proof (induction s uid n rule: slave_loop.induct)
  case (1 s uid n)
  show ?case
  proof (cases "n < unat (slave_num s)")
    case False
    then show ?thesis by (subst slave_loop.simps) auto
  next
    case True
    show ?thesis
    proof (cases "slave_knows (slaves s ! n) uid")
      case k: True
      have "slave_loop s uid n = Some n"
        using True k by (subst slave_loop.simps) (simp add: uid_loop_knows)
      then show ?thesis using True k by auto
    next
      case nk: False
      have eq: "slave_loop s uid n = slave_loop s uid (n + 1)"
        using True nk by (subst slave_loop.simps) (simp add: uid_loop_knows)
      have ih: "slave_loop s uid (n + 1) = None \<longleftrightarrow>
          (\<forall>j. n + 1 \<le> j \<and> j < unat (slave_num s) \<longrightarrow> \<not> slave_knows (slaves s ! j) uid)"
        using 1 [OF True] nk by (simp add: uid_loop_knows)
      have "(\<forall>j. n + 1 \<le> j \<and> j < unat (slave_num s) \<longrightarrow> \<not> slave_knows (slaves s ! j) uid) =
            (\<forall>j. n \<le> j \<and> j < unat (slave_num s) \<longrightarrow> \<not> slave_knows (slaves s ! j) uid)"
        using nk by (metis Suc_eq_plus1 Suc_leI Suc_leD le_neq_implies_less)
      then show ?thesis using eq ih by simp
    qed
  qed
qed

lemma broadcast_loop_eq:
  "broadcast_loop request n s =
     s\<lparr>packet_to_spi_queue := packet_to_spi_queue s @
          map (\<lambda>k. (k, queued_packet request)) [n..<unat (slave_num s)]\<rparr>"
proof (induction request n s rule: broadcast_loop.induct)
  case (1 request n s)
  show ?case
  proof (cases "n < unat (slave_num s)")
    case False
    then show ?thesis by (subst broadcast_loop.simps) simp
  next
    case True
    then show ?thesis
      using 1 [OF True] by (subst broadcast_loop.simps) (simp add: upt_conv_Cons)
  qed
qed

text \<open>
  C7. A request with UID 0 adds one queue entry for each slot below \<^verbatim>\<open>slave_num\<close>,
  in the order of the slots, each with a copy of the request, and nothing else
  changes. A request with another UID adds one entry, for the slot that
  \<^verbatim>\<open>red_stack_spi_get_slave_for_uid\<close> returns; when that returns NULL, which it does
  exactly when no slave below \<^verbatim>\<open>slave_num\<close> knows the UID, the queue stays as it is
  and an error is logged.
\<close>

theorem dispatch_to_spi_enqueues:
  "(header_uid request = 0 \<longrightarrow>
      red_stack_dispatch_to_spi request s =
        s\<lparr>packet_to_spi_queue := packet_to_spi_queue s @
             map (\<lambda>n. (n, queued_packet request)) [0..<unat (slave_num s)]\<rparr>) \<and>
   (header_uid request \<noteq> 0 \<longrightarrow>
      (case red_stack_spi_get_slave_for_uid s (header_uid request) of
         Some n \<Rightarrow>
           red_stack_dispatch_to_spi request s =
             s\<lparr>packet_to_spi_queue := packet_to_spi_queue s @ [(n, queued_packet request)]\<rparr>
       | None \<Rightarrow>
           red_stack_dispatch_to_spi request s =
             s\<lparr>log := log s @ [Error_unknown_uid (header_uid request)]\<rparr>)) \<and>
   (red_stack_spi_get_slave_for_uid s (header_uid request) = None \<longleftrightarrow>
      (\<forall>n < unat (slave_num s). \<not> slave_knows (slaves s ! n) (header_uid request)))"
  by (simp add: red_stack_dispatch_to_spi_def broadcast_loop_eq
      red_stack_spi_get_slave_for_uid_def slave_loop_None split: option.splits)

theorem dispatch_to_spi_enqueues_witness:
  "header_uid (replicate 4 0 @ [8, 1, 0, 0] @ replicate 72 0) = 0 \<and>
   packet_to_spi_queue
     (red_stack_dispatch_to_spi (replicate 4 0 @ [8, 1, 0, 0] @ replicate 72 0) (example_stack 3)) =
     [(0, replicate 4 0 @ [8, 1, 0, 0] @ replicate 72 0),
      (1, replicate 4 0 @ [8, 1, 0, 0] @ replicate 72 0),
      (2, replicate 4 0 @ [8, 1, 0, 0] @ replicate 72 0)] \<and>
   header_uid ([2, 0, 0, 0, 8, 1, 0, 0] @ replicate 72 0) \<noteq> 0 \<and>
   red_stack_spi_get_slave_for_uid (example_stack 3)
     (header_uid ([2, 0, 0, 0, 8, 1, 0, 0] @ replicate 72 0)) = Some 1 \<and>
   packet_to_spi_queue
     (red_stack_dispatch_to_spi ([2, 0, 0, 0, 8, 1, 0, 0] @ replicate 72 0) (example_stack 3)) =
     [(1, [2, 0, 0, 0, 8, 1, 0, 0] @ replicate 72 0)] \<and>
   header_uid ([0xEF, 0xBE, 0xAD, 0xDE, 8, 1, 0, 0] @ replicate 72 0) \<noteq> 0 \<and>
   red_stack_spi_get_slave_for_uid (example_stack 3)
     (header_uid ([0xEF, 0xBE, 0xAD, 0xDE, 8, 1, 0, 0] @ replicate 72 0)) = None \<and>
   packet_to_spi_queue
     (red_stack_dispatch_to_spi ([0xEF, 0xBE, 0xAD, 0xDE, 8, 1, 0, 0] @ replicate 72 0)
        (example_stack 3)) = [] \<and>
   log (red_stack_dispatch_to_spi ([0xEF, 0xBE, 0xAD, 0xDE, 8, 1, 0, 0] @ replicate 72 0)
        (example_stack 3)) = [Error_unknown_uid 0xDEADBEEF]"
proof -
  have q: "packet_to_spi_queue (example_stack 3) = []" and l: "log (example_stack 3) = []"
    and n: "unat (slave_num (example_stack 3)) = 3"
    by (simp_all add: example_stack_def red_stack_init_spi_def)
  have u0: "header_uid (replicate 4 0 @ [8, 1, 0, 0] @ replicate 72 0) = 0" by code_simp
  have p0: "queued_packet (replicate 4 0 @ [8, 1, 0, 0] @ replicate 72 0) =
              replicate 4 0 @ [8, 1, 0, 0] @ replicate 72 0" by code_simp
  have u2: "header_uid ([2, 0, 0, 0, 8, 1, 0, 0] @ replicate 72 0) = 2" by code_simp
  have p2: "queued_packet ([2, 0, 0, 0, 8, 1, 0, 0] @ replicate 72 0) =
              [2, 0, 0, 0, 8, 1, 0, 0] @ replicate 72 0" by code_simp
  have s2: "red_stack_spi_get_slave_for_uid (example_stack 3) 2 = Some 1" by code_simp
  have ux: "header_uid ([0xEF, 0xBE, 0xAD, 0xDE, 8, 1, 0, 0] @ replicate 72 0) = 0xDEADBEEF"
    by code_simp
  have sx: "red_stack_spi_get_slave_for_uid (example_stack 3) 0xDEADBEEF = None" by code_simp
  have up: "[0..<3] = [0, 1, 2]" by (simp add: upt_conv_Cons)
  show ?thesis
    using dispatch_to_spi_enqueues [of "replicate 4 0 @ [8, 1, 0, 0] @ replicate 72 0" "example_stack 3"]
      dispatch_to_spi_enqueues [of "[2, 0, 0, 0, 8, 1, 0, 0] @ replicate 72 0" "example_stack 3"]
      dispatch_to_spi_enqueues [of "[0xEF, 0xBE, 0xAD, 0xDE, 8, 1, 0, 0] @ replicate 72 0" "example_stack 3"]
    unfolding u0 u2 ux s2 sx p0 p2
    by (simp add: q l n up)
qed

subsection \<open>The polling loop\<close>

lemma transceive_rx_retval:
  "ret_val (transceive_rx rv tx rx pr sl) = rv OR RED_STACK_TRANSCEIVE_RESULT_READ_NONE \<or>
   ret_val (transceive_rx rv tx rx pr sl) = rv OR RED_STACK_TRANSCEIVE_RESULT_READ_ERROR \<or>
   ret_val (transceive_rx rv tx rx pr sl) =
     rv OR (RED_STACK_TRANSCEIVE_RESULT_READ_OK OR RED_STACK_TRANSCEIVE_DATA_RECEIVED)"
  by (simp add: transceive_rx_def Let_def)

lemma transceive_rx_tx [simp]: "ret_tx (transceive_rx rv tx rx pr sl) = Some tx"
  by (simp add: transceive_rx_def Let_def)

lemma transceive_rx_read_ok:
  assumes "rv = RED_STACK_TRANSCEIVE_RESULT_SEND_NONE \<or>
           rv = RED_STACK_TRANSCEIVE_DATA_SEND OR RED_STACK_TRANSCEIVE_RESULT_SEND_OK"
    and "ret_val (transceive_rx rv tx rx pr sl) AND RED_STACK_TRANSCEIVE_RESULT_READ_OK =
           RED_STACK_TRANSCEIVE_RESULT_READ_OK"
  shows "ret_slave (transceive_rx rv tx rx pr sl) =
           sl\<lparr>status := (if rx ! RED_STACK_SPI_INFO (unat (rx ! RED_STACK_SPI_LENGTH)) AND
                                 RED_STACK_SPI_INFO_BUSY \<noteq> 0
                            then RED_STACK_SLAVE_STATUS_AVAILABLE_BUSY
                            else RED_STACK_SLAVE_STATUS_AVAILABLE)\<rparr>"
  using assms
  by (auto simp add: transceive_rx_def Let_def red_stack_consts split: if_splits)

lemma message_busy_poll:
  assumes "status sl = RED_STACK_SLAVE_STATUS_AVAILABLE_BUSY"
  shows "ret_tx (red_stack_spi_transceive_message ioctl packet_send pr sl) = Some poll_frame \<and>
         ret_val (red_stack_spi_transceive_message ioctl packet_send pr sl) AND
           RED_STACK_TRANSCEIVE_DATA_SEND = 0 \<and>
         (unat (word_of_int (fst (ioctl poll_frame)) :: u8) = RED_STACK_SPI_PACKET_SIZE \<longrightarrow>
            ret_val (red_stack_spi_transceive_message ioctl packet_send pr sl) AND 7 =
              RED_STACK_TRANSCEIVE_RESULT_SEND_NONE) \<and>
         (unat (word_of_int (fst (ioctl poll_frame)) :: u8) \<noteq> RED_STACK_SPI_PACKET_SIZE \<longrightarrow>
            ret_val (red_stack_spi_transceive_message ioctl packet_send pr sl) =
              RED_STACK_TRANSCEIVE_RESULT_SEND_ERROR OR RED_STACK_TRANSCEIVE_RESULT_READ_ERROR)"
proof -
  have tx: "transceive_tx packet_send sl = Inr (RED_STACK_TRANSCEIVE_RESULT_SEND_NONE, poll_frame)"
    using assms by (simp add: transceive_tx_poll)
  obtain ret received where io: "ioctl poll_frame = (ret, received)" by (cases "ioctl poll_frame")
  show ?thesis
  proof (cases "unat (word_of_int ret :: u8) = RED_STACK_SPI_PACKET_SIZE")
    case False
    then show ?thesis
      using tx io by (simp add: red_stack_spi_transceive_message_def red_stack_consts)
  next
    case True
    have eq: "red_stack_spi_transceive_message ioctl packet_send pr sl =
        transceive_rx RED_STACK_TRANSCEIVE_RESULT_SEND_NONE poll_frame (rx_buffer received)
          (pr[PACKET_HEADER_LENGTH := 0]) sl"
      using tx io True by (simp add: red_stack_spi_transceive_message_def)
    show ?thesis
      unfolding eq
      using transceive_rx_retval [of RED_STACK_TRANSCEIVE_RESULT_SEND_NONE poll_frame
          "rx_buffer received" "pr[PACKET_HEADER_LENGTH := 0]" sl] io True
      by (auto simp add: red_stack_consts)
  qed
qed

lemma message_oversize:
  assumes "status sl = RED_STACK_SLAVE_STATUS_AVAILABLE" and "SIZEOF_PACKET < unat (p ! PACKET_HEADER_LENGTH)"
  shows "red_stack_spi_transceive_message ioctl (Some p) pr sl =
           \<lparr>ret_val = RED_STACK_TRANSCEIVE_RESULT_SEND_ERROR,
            ret_packet_recv = pr[PACKET_HEADER_LENGTH := 0], ret_slave = sl, ret_tx = None,
            ret_log = [Error_send_length (p ! PACKET_HEADER_LENGTH)]\<rparr>"
  using assms
  by (simp add: red_stack_spi_transceive_message_def transceive_tx_def Let_def red_stack_consts)

lemma iteration_queued:
  assumes "packet_to_spi_queue s = (n, p) # rest"
  shows "spi_thread_iteration dev s =
    (case transceive dev (Some p) (replicate SIZEOF_PACKET 0) n
            (s\<lparr>packet_from_spi := replicate SIZEOF_PACKET 0\<rparr>) of
       (ret, pkt, s1) \<Rightarrow>
         (let s2 = s1\<lparr>packet_from_spi := pkt\<rparr>;
              s3 = (if ret AND RED_STACK_TRANSCEIVE_DATA_SEND \<noteq> 0
                    then s2\<lparr>packet_to_spi_queue := tl (packet_to_spi_queue s2)\<rparr> else s2)
          in if ret AND RED_STACK_TRANSCEIVE_DATA_RECEIVED \<noteq> 0
             then s3\<lparr>dispatched := dispatched s3 @ [packet_from_spi s3]\<rparr> else s3))"
  using assms by (simp add: spi_thread_iteration_def Let_def split: prod.splits)

lemma transceive_eq:
  "transceive dev packet_send pr n s =
    (let r = red_stack_spi_transceive_message
               (\<lambda>tx. fst (dev (spi_state s) (slave_select_pin (slaves s ! n)) tx))
               packet_send pr (slaves s ! n)
     in (ret_val r, ret_packet_recv r,
         s\<lparr>slaves := (slaves s)[n := ret_slave r],
           spi_state := (case ret_tx r of
                           None \<Rightarrow> spi_state s
                         | Some tx \<Rightarrow> snd (dev (spi_state s) (slave_select_pin (slaves s ! n)) tx)),
           log := log s @ ret_log r,
           calls := calls s @ [\<lparr>call_slave = n, call_status = status (slaves s ! n),
                                call_request = (packet_send \<noteq> None),
                                call_retval = ret_val r, call_tx = ret_tx r\<rparr>]\<rparr>))"
  by (simp add: transceive_def Let_def)

text \<open>
  C3, as stated, fails: with the slave left busy by an exchange that returned
  \<^verbatim>\<open>READ_OK\<close> under a set busy bit, and a request for it at the head of the queue,
  the next iteration hands the frame without payload to a transfer that fails; the
  value returned is then \<^verbatim>\<open>SEND_ERROR\<close> with \<^verbatim>\<open>READ_ERROR\<close>, not
  \<^verbatim>\<open>SEND_NONE\<close>.
\<close>

theorem busy_slave_failed_transfer_counterexample:
  "ret_val (red_stack_spi_transceive_message
      (\<lambda>tx. (84, [0xAA, 12, 1, 0, 0, 0, 8, 1, 0, 0, 1, 228])) None (replicate 80 0)
      (example_slave RED_STACK_SLAVE_STATUS_AVAILABLE)) AND RED_STACK_TRANSCEIVE_RESULT_READ_OK =
     RED_STACK_TRANSCEIVE_RESULT_READ_OK \<and>
   ret_slave (red_stack_spi_transceive_message
      (\<lambda>tx. (84, [0xAA, 12, 1, 0, 0, 0, 8, 1, 0, 0, 1, 228])) None (replicate 80 0)
      (example_slave RED_STACK_SLAVE_STATUS_AVAILABLE)) = slaves busy_stack ! 0 \<and>
   status (slaves busy_stack ! 0) = RED_STACK_SLAVE_STATUS_AVAILABLE_BUSY \<and>
   packet_to_spi_queue busy_stack = [(0, example_request)] \<and>
   call_tx (last (calls (spi_thread_iteration failing_device busy_stack))) = Some poll_frame \<and>
   call_retval (last (calls (spi_thread_iteration failing_device busy_stack))) =
     RED_STACK_TRANSCEIVE_RESULT_SEND_ERROR OR RED_STACK_TRANSCEIVE_RESULT_READ_ERROR \<and>
   call_retval (last (calls (spi_thread_iteration failing_device busy_stack))) AND 7 =
     RED_STACK_TRANSCEIVE_RESULT_SEND_ERROR \<and>
   packet_to_spi_queue (spi_thread_iteration failing_device busy_stack) = [(0, example_request)]"
  by code_simp

text \<open>
  C3, amended. When an exchange returns \<^verbatim>\<open>READ_OK\<close> (the frame received carried
  a payload and passed the checks of preamble, length and checksum) and bit 0 of its
  info byte was set, it leaves the slave busy. With the slave so and a request for it
  at the head of the queue, the next iteration of the polling loop calls the
  transceiver with that request on that slave, the frame handed to the transfer is
  the frame without payload, \<^verbatim>\<open>DATA_SEND\<close> is not set in the value returned, and
  the queue is as before: the request is not popped. The send field of the value
  returned is \<^verbatim>\<open>SEND_NONE\<close> when the transfer is complete; when it is not, the
  value is \<^verbatim>\<open>SEND_ERROR\<close> with \<^verbatim>\<open>READ_ERROR\<close>.
\<close>

theorem busy_slave_is_polled:
  assumes ex: "r = red_stack_spi_transceive_message ioctl packet_send packet_recv sl"
    and tx: "ret_tx r = Some tx"
    and rx: "rx = rx_buffer (snd (ioctl tx))"
    and ok: "ret_val r AND RED_STACK_TRANSCEIVE_RESULT_READ_OK = RED_STACK_TRANSCEIVE_RESULT_READ_OK"
    and busy: "rx ! RED_STACK_SPI_INFO (unat (rx ! RED_STACK_SPI_LENGTH)) AND RED_STACK_SPI_INFO_BUSY \<noteq> 0"
    and q: "packet_to_spi_queue s = (n, request) # rest"
    and n: "n < length (slaves s)"
    and sl: "slaves s ! n = ret_slave r"
  shows "status (ret_slave r) = RED_STACK_SLAVE_STATUS_AVAILABLE_BUSY \<and>
         (let s' = spi_thread_iteration dev s; c = last (calls s') in
            calls s' = calls s @ [c] \<and> call_slave c = n \<and> call_request c \<and>
            call_status c = RED_STACK_SLAVE_STATUS_AVAILABLE_BUSY \<and>
            call_tx c = Some poll_frame \<and>
            call_retval c AND RED_STACK_TRANSCEIVE_DATA_SEND = 0 \<and>
            (unat (word_of_int (fst (fst (dev (spi_state s) (slave_select_pin (slaves s ! n))
                      poll_frame))) :: u8) = RED_STACK_SPI_PACKET_SIZE \<longrightarrow>
               call_retval c AND 7 = RED_STACK_TRANSCEIVE_RESULT_SEND_NONE) \<and>
            (unat (word_of_int (fst (fst (dev (spi_state s) (slave_select_pin (slaves s ! n))
                      poll_frame))) :: u8) \<noteq> RED_STACK_SPI_PACKET_SIZE \<longrightarrow>
               call_retval c = RED_STACK_TRANSCEIVE_RESULT_SEND_ERROR OR
                               RED_STACK_TRANSCEIVE_RESULT_READ_ERROR) \<and>
            packet_to_spi_queue s' = packet_to_spi_queue s)"
proof -
  from tx obtain rv where t: "transceive_tx packet_send sl = Inr (rv, tx)"
    unfolding ex by (auto simp add: message_tx split: sum.splits)
  have rv: "rv = RED_STACK_TRANSCEIVE_RESULT_SEND_NONE \<or>
            rv = RED_STACK_TRANSCEIVE_DATA_SEND OR RED_STACK_TRANSCEIVE_RESULT_SEND_OK"
    using transceive_tx_Inr [OF t] by auto
  obtain ret received where io: "ioctl tx = (ret, received)" by (cases "ioctl tx")
  have st: "status (ret_slave r) = RED_STACK_SLAVE_STATUS_AVAILABLE_BUSY"
  proof (cases "unat (word_of_int ret :: u8) = RED_STACK_SPI_PACKET_SIZE")
    case False
    then have "ret_val r = RED_STACK_TRANSCEIVE_RESULT_SEND_ERROR OR RED_STACK_TRANSCEIVE_RESULT_READ_ERROR"
      unfolding ex using t io by (simp add: red_stack_spi_transceive_message_def)
    with ok show ?thesis by (simp add: red_stack_consts)
  next
    case True
    have eq: "r = transceive_rx rv tx rx (packet_recv[PACKET_HEADER_LENGTH := 0]) sl"
      unfolding ex rx using t io True by (simp add: red_stack_spi_transceive_message_def)
    show ?thesis
      using transceive_rx_read_ok [OF rv ok [unfolded eq]] busy unfolding eq by simp
  qed
  define s0 where "s0 = s\<lparr>packet_from_spi := replicate SIZEOF_PACKET 0\<rparr>"
  define io2 where "io2 = (\<lambda>tx. fst (dev (spi_state s) (slave_select_pin (slaves s ! n)) tx))"
  define r2 where "r2 = red_stack_spi_transceive_message io2 (Some request)
                          (replicate SIZEOF_PACKET 0) (slaves s ! n)"
  have b: "status (slaves s ! n) = RED_STACK_SLAVE_STATUS_AVAILABLE_BUSY" using st sl by simp
  from message_busy_poll [OF b, of io2 "Some request" "replicate SIZEOF_PACKET 0"]
  have f: "ret_tx r2 = Some poll_frame"
    "ret_val r2 AND RED_STACK_TRANSCEIVE_DATA_SEND = 0"
    "unat (word_of_int (fst (io2 poll_frame)) :: u8) = RED_STACK_SPI_PACKET_SIZE \<longrightarrow>
       ret_val r2 AND 7 = RED_STACK_TRANSCEIVE_RESULT_SEND_NONE"
    "unat (word_of_int (fst (io2 poll_frame)) :: u8) \<noteq> RED_STACK_SPI_PACKET_SIZE \<longrightarrow>
       ret_val r2 = RED_STACK_TRANSCEIVE_RESULT_SEND_ERROR OR RED_STACK_TRANSCEIVE_RESULT_READ_ERROR"
    unfolding r2_def by simp_all
  define c where "c = \<lparr>call_slave = n, call_status = status (slaves s ! n), call_request = True,
                       call_retval = ret_val r2, call_tx = ret_tx r2\<rparr>"
  have it: "calls (spi_thread_iteration dev s) = calls s @ [c] \<and>
            packet_to_spi_queue (spi_thread_iteration dev s) = packet_to_spi_queue s"
    using f(2)
    by (simp add: iteration_queued [OF q] transceive_eq Let_def c_def r2_def io2_def)
  show ?thesis
    using st it f b by (simp add: Let_def c_def io2_def)
qed

theorem busy_slave_is_polled_witness:
  "ret_tx (red_stack_spi_transceive_message
      (\<lambda>tx. (84, [0xAA, 12, 1, 0, 0, 0, 8, 1, 0, 0, 1, 228])) None (replicate 80 0)
      (example_slave RED_STACK_SLAVE_STATUS_AVAILABLE)) = Some poll_frame \<and>
   ret_val (red_stack_spi_transceive_message
      (\<lambda>tx. (84, [0xAA, 12, 1, 0, 0, 0, 8, 1, 0, 0, 1, 228])) None (replicate 80 0)
      (example_slave RED_STACK_SLAVE_STATUS_AVAILABLE)) AND RED_STACK_TRANSCEIVE_RESULT_READ_OK =
     RED_STACK_TRANSCEIVE_RESULT_READ_OK \<and>
   rx_buffer [0xAA, 12, 1, 0, 0, 0, 8, 1, 0, 0, 1, 228] ! 10 AND RED_STACK_SPI_INFO_BUSY \<noteq> 0 \<and>
   packet_to_spi_queue busy_stack = [(0, example_request)] \<and>
   0 < length (slaves busy_stack) \<and>
   status (slaves busy_stack ! 0) = RED_STACK_SLAVE_STATUS_AVAILABLE_BUSY \<and>
   call_tx (last (calls (spi_thread_iteration silent_device busy_stack))) = Some poll_frame \<and>
   call_retval (last (calls (spi_thread_iteration silent_device busy_stack))) AND 7 =
     RED_STACK_TRANSCEIVE_RESULT_SEND_NONE \<and>
   packet_to_spi_queue (spi_thread_iteration silent_device busy_stack) = [(0, example_request)]"
proof -
  define r where "r = red_stack_spi_transceive_message
      (\<lambda>tx. (84, [0xAA, 12, 1, 0, 0, 0, 8, 1, 0, 0, 1, 228])) None (replicate 80 0)
      (example_slave RED_STACK_SLAVE_STATUS_AVAILABLE)"
  define rx where "rx = rx_buffer (snd ((\<lambda>tx :: u8 list. (84 :: int, [0xAA, 12, 1, 0, 0, 0, 8, 1, 0, 0, 1, 228 :: u8])) poll_frame))"
  have h1: "ret_tx r = Some poll_frame" unfolding r_def by code_simp
  have h2: "ret_val r AND RED_STACK_TRANSCEIVE_RESULT_READ_OK = RED_STACK_TRANSCEIVE_RESULT_READ_OK"
    unfolding r_def by code_simp
  have h3: "rx ! RED_STACK_SPI_INFO (unat (rx ! RED_STACK_SPI_LENGTH)) AND RED_STACK_SPI_INFO_BUSY \<noteq> 0"
    unfolding rx_def by code_simp
  have h3': "rx_buffer [0xAA, 12, 1, 0, 0, 0, 8, 1, 0, 0, 1, 228] ! 10 AND RED_STACK_SPI_INFO_BUSY \<noteq> 0"
    by code_simp
  have h4: "packet_to_spi_queue busy_stack = (0, example_request) # []"
    by (simp add: busy_stack_def)
  have h5: "0 < length (slaves busy_stack)"
    by (simp add: busy_stack_def example_stack_def red_stack_consts)
  have h6: "slaves busy_stack ! 0 = ret_slave r" unfolding r_def by code_simp
  have h7: "unat (word_of_int (fst (fst (silent_device (spi_state busy_stack)
              (slave_select_pin (slaves busy_stack ! 0)) poll_frame))) :: u8) = RED_STACK_SPI_PACKET_SIZE"
    by (simp add: silent_device_def red_stack_consts)
  show ?thesis
    using busy_slave_is_polled [OF r_def h1 rx_def h2 h3 h4 h5 h6, of silent_device]
      h1 h2 h3' h4 h5 h6 h7
    unfolding r_def [symmetric] by (simp add: Let_def)
qed

lemma iteration_oversize:
  assumes q: "packet_to_spi_queue s = (n, request) # rest"
    and av: "status (slaves s ! n) = RED_STACK_SLAVE_STATUS_AVAILABLE"
    and big: "SIZEOF_PACKET < unat (request ! PACKET_HEADER_LENGTH)"
  shows "spi_thread_iteration dev s =
           s\<lparr>packet_from_spi := replicate SIZEOF_PACKET 0,
             log := log s @ [Error_send_length (request ! PACKET_HEADER_LENGTH)],
             calls := calls s @ [\<lparr>call_slave = n, call_status = RED_STACK_SLAVE_STATUS_AVAILABLE,
                                  call_request = True,
                                  call_retval = RED_STACK_TRANSCEIVE_RESULT_SEND_ERROR,
                                  call_tx = None\<rparr>]\<rparr>"
proof -
  have z: "(replicate 80 (0 :: u8))[4 := 0] = replicate 80 0"
    by (simp add: list_update_same_conv)
  show ?thesis
    using q av
    by (simp add: iteration_queued [OF q] transceive_eq Let_def message_oversize [OF av big] z
        red_stack_consts)
qed

text \<open>
  C4, amended. With a request of declared length above 80 at the head of the queue,
  for an available slave, every iteration of the polling loop returns from the
  transceiver with \<^verbatim>\<open>SEND_ERROR\<close> alone, before any transfer, and logs the length
  error; the request is not popped, so after any number of iterations it is still
  the head of the queue, the slaves and the device are untouched, and each
  iteration has tried it again.
\<close>

theorem oversize_request_stays_queued:
  assumes q: "packet_to_spi_queue s = (n, request) # rest"
    and n: "n < length (slaves s)"
    and av: "status (slaves s ! n) = RED_STACK_SLAVE_STATUS_AVAILABLE"
    and big: "SIZEOF_PACKET < unat (request ! PACKET_HEADER_LENGTH)"
  shows "packet_to_spi_queue ((spi_thread_iteration dev ^^ k) s) = (n, request) # rest \<and>
         slaves ((spi_thread_iteration dev ^^ k) s) = slaves s \<and>
         spi_state ((spi_thread_iteration dev ^^ k) s) = spi_state s \<and>
         log ((spi_thread_iteration dev ^^ k) s) =
           log s @ replicate k (Error_send_length (request ! PACKET_HEADER_LENGTH)) \<and>
         calls ((spi_thread_iteration dev ^^ k) s) =
           calls s @ replicate k
             \<lparr>call_slave = n, call_status = RED_STACK_SLAVE_STATUS_AVAILABLE, call_request = True,
              call_retval = RED_STACK_TRANSCEIVE_RESULT_SEND_ERROR, call_tx = None\<rparr>"
proof (induction k)
  case 0
  then show ?case using q by simp
next
  case (Suc k)
  define t where "t = (spi_thread_iteration dev ^^ k) s"
  have tq: "packet_to_spi_queue t = (n, request) # rest"
    and tav: "status (slaves t ! n) = RED_STACK_SLAVE_STATUS_AVAILABLE"
    using Suc av by (simp_all add: t_def)
  show ?case
    using Suc
    by (simp add: t_def [symmetric] iteration_oversize [OF tq tav big] replicate_append_same)
qed

theorem oversize_request_stays_queued_witness:
  "packet_to_spi_queue oversize_stack = [(0, [1, 0, 0, 0, 81] @ replicate 75 0)] \<and>
   0 < length (slaves oversize_stack) \<and>
   status (slaves oversize_stack ! 0) = RED_STACK_SLAVE_STATUS_AVAILABLE \<and>
   SIZEOF_PACKET < unat (([1, 0, 0, 0, 81] @ replicate 75 0 :: u8 list) ! PACKET_HEADER_LENGTH) \<and>
   packet_to_spi_queue ((spi_thread_iteration silent_device ^^ 3) oversize_stack) =
     [(0, [1, 0, 0, 0, 81] @ replicate 75 0)] \<and>
   log ((spi_thread_iteration silent_device ^^ 3) oversize_stack) =
     [Error_send_length 81, Error_send_length 81, Error_send_length 81]"
proof -
  have h1: "packet_to_spi_queue oversize_stack = (0, [1, 0, 0, 0, 81] @ replicate 75 0) # []"
    by (simp add: oversize_stack_def)
  have h2: "0 < length (slaves oversize_stack)"
    by (simp add: oversize_stack_def example_stack_def red_stack_consts)
  have h3: "status (slaves oversize_stack ! 0) = RED_STACK_SLAVE_STATUS_AVAILABLE"
    by code_simp
  have h4: "SIZEOF_PACKET < unat (([1, 0, 0, 0, 81] @ replicate 75 0 :: u8 list) ! PACKET_HEADER_LENGTH)"
    by (simp add: red_stack_consts)
  have l: "log oversize_stack = []"
    by (simp add: oversize_stack_def example_stack_def red_stack_init_spi_def)
  have e: "([1, 0, 0, 0, 81] @ replicate 75 0) ! PACKET_HEADER_LENGTH = (81 :: u8)"
    by (simp add: red_stack_consts)
  show ?thesis
    using oversize_request_stays_queued [OF h1 h2 h3 h4, where dev = silent_device and k = 3] h1 h2 h3 h4
    by (simp add: l red_stack_consts numeral_3_eq_3)
qed

text \<open>
  C4, as stated, fails: after an iteration the request of declared length 81 is
  still in the queue, and the second iteration passes it to the transceiver again.
\<close>

theorem oversize_request_counterexample:
  "packet_to_spi_queue (spi_thread_iteration silent_device oversize_stack) =
     [(0, [1, 0, 0, 0, 81] @ replicate 75 0)] \<and>
   map call_request
     (calls (spi_thread_iteration silent_device (spi_thread_iteration silent_device oversize_stack))) =
     [True, True] \<and>
   map call_retval
     (calls (spi_thread_iteration silent_device (spi_thread_iteration silent_device oversize_stack))) =
     [RED_STACK_TRANSCEIVE_RESULT_SEND_ERROR, RED_STACK_TRANSCEIVE_RESULT_SEND_ERROR]"
  by code_simp

subsection \<open>Discovery\<close>

lemma message_slave:
  "\<exists>st. ret_slave (red_stack_spi_transceive_message ioctl packet_send pr sl) = sl\<lparr>status := st\<rparr> \<and>
        (st = status sl \<or> st = RED_STACK_SLAVE_STATUS_AVAILABLE \<or>
         st = RED_STACK_SLAVE_STATUS_AVAILABLE_BUSY)"
proof (cases "transceive_tx packet_send sl")
  case (Inl e)
  then have "ret_slave (red_stack_spi_transceive_message ioctl packet_send pr sl) =
             sl\<lparr>status := status sl\<rparr>"
    by (cases e) (simp add: red_stack_spi_transceive_message_def)
  then show ?thesis by blast
next
  case (Inr b)
  obtain rv tx where b: "b = (rv, tx)" by (cases b)
  obtain ret received where io: "ioctl tx = (ret, received)" by (cases "ioctl tx")
  have "ret_slave (red_stack_spi_transceive_message ioctl packet_send pr sl) =
             sl\<lparr>status := status sl\<rparr> \<or>
        ret_slave (red_stack_spi_transceive_message ioctl packet_send pr sl) =
             sl\<lparr>status := RED_STACK_SLAVE_STATUS_AVAILABLE\<rparr> \<or>
        ret_slave (red_stack_spi_transceive_message ioctl packet_send pr sl) =
             sl\<lparr>status := RED_STACK_SLAVE_STATUS_AVAILABLE_BUSY\<rparr>"
    using Inr b io
    by (simp add: red_stack_spi_transceive_message_def transceive_rx_def Let_def)
  then show ?thesis by blast
qed

lemma transceive_step:
  assumes "status (slaves s ! n) \<noteq> RED_STACK_SLAVE_STATUS_ABSENT"
    and "transceive dev packet_send pr n s = (ret, pkt, s')"
  shows "\<exists>c. probe_step n (packet_send \<noteq> None) s s' [c] \<and> call_retval c = ret"
proof -
  define r where "r = red_stack_spi_transceive_message
               (\<lambda>tx. fst (dev (spi_state s) (slave_select_pin (slaves s ! n)) tx))
               packet_send pr (slaves s ! n)"
  from message_slave obtain st where st: "ret_slave r = (slaves s ! n)\<lparr>status := st\<rparr>"
    "st = status (slaves s ! n) \<or> st = RED_STACK_SLAVE_STATUS_AVAILABLE \<or>
     st = RED_STACK_SLAVE_STATUS_AVAILABLE_BUSY"
    unfolding r_def by blast
  have ne: "st \<noteq> RED_STACK_SLAVE_STATUS_ABSENT" using st(2) assms(1) by auto
  have "transceive dev packet_send pr n s = (ret_val r, ret_packet_recv r,
         s\<lparr>slaves := (slaves s)[n := ret_slave r],
           spi_state := (case ret_tx r of
                           None \<Rightarrow> spi_state s
                         | Some tx \<Rightarrow> snd (dev (spi_state s) (slave_select_pin (slaves s ! n)) tx)),
           log := log s @ ret_log r,
           calls := calls s @ [\<lparr>call_slave = n, call_status = status (slaves s ! n),
                                call_request = (packet_send \<noteq> None),
                                call_retval = ret_val r, call_tx = ret_tx r\<rparr>]\<rparr>)"
    by (simp add: transceive_eq Let_def r_def)
  with assms(2) have s': "s' = s\<lparr>slaves := (slaves s)[n := ret_slave r],
           spi_state := (case ret_tx r of
                           None \<Rightarrow> spi_state s
                         | Some tx \<Rightarrow> snd (dev (spi_state s) (slave_select_pin (slaves s ! n)) tx)),
           log := log s @ ret_log r,
           calls := calls s @ [\<lparr>call_slave = n, call_status = status (slaves s ! n),
                                call_request = (packet_send \<noteq> None),
                                call_retval = ret_val r, call_tx = ret_tx r\<rparr>]\<rparr>"
    and ret: "ret = ret_val r"
    by auto
  show ?thesis
    apply (rule exI [of _ "\<lparr>call_slave = n, call_status = status (slaves s ! n),
                                call_request = (packet_send \<noteq> None),
                                call_retval = ret_val r, call_tx = ret_tx r\<rparr>"])
    using ne assms(1) st(1) by (auto simp add: probe_step_def s' ret)
qed

lemma probe_step_trans:
  assumes "probe_step n req s s1 cs1" and "probe_step n req s1 s2 cs2" and "n < length (slaves s)"
  shows "probe_step n req s s2 (cs1 @ cs2)"
proof -
  from assms(1) obtain st1 where 1: "slaves s1 = (slaves s)[n := (slaves s ! n)\<lparr>status := st1\<rparr>]"
    and e1: "s1 = s\<lparr>slaves := slaves s1, spi_state := spi_state s1, log := log s1,
            calls := calls s @ cs1\<rparr>"
    by (auto simp add: probe_step_def)
  from assms(2) obtain st2 where 2: "slaves s2 = (slaves s1)[n := (slaves s1 ! n)\<lparr>status := st2\<rparr>]"
    "st2 \<noteq> RED_STACK_SLAVE_STATUS_ABSENT"
    and e2: "s2 = s1\<lparr>slaves := slaves s2, spi_state := spi_state s2, log := log s2,
            calls := calls s1 @ cs2\<rparr>"
    by (auto simp add: probe_step_def)
  have c1: "calls s1 = calls s @ cs1" by (subst e1) simp
  have "slaves s2 = (slaves s)[n := (slaves s ! n)\<lparr>status := st2\<rparr>]"
    using assms(3) by (simp add: 1 2)
  moreover have "s2 = s\<lparr>slaves := slaves s2, spi_state := spi_state s2, log := log s2,
            calls := calls s @ (cs1 @ cs2)\<rparr>"
    by (subst e2, subst e1) (simp add: c1)
  ultimately show ?thesis
    using assms(1,2) 2(2) unfolding probe_step_def by (metis Un_iff set_append)
qed

lemma probe_step_refl_send_loop: "status (slaves s ! n) \<noteq> RED_STACK_SLAVE_STATUS_ABSENT \<Longrightarrow> probe_step n True s s []"
  unfolding probe_step_def
  by (auto intro!: exI [of _ "status (slaves s ! n)"])

lemma send_loop_step:
  assumes "send_loop dev n tries pkt s = (tries', pkt', s')"
    and "status (slaves s ! n) \<noteq> RED_STACK_SLAVE_STATUS_ABSENT"
    and "n < length (slaves s)" and "tries \<le> 10"
  shows "\<exists>cs. probe_step n True s s' cs \<and> tries \<le> tries' \<and> tries' \<le> 10 \<and>
              length (filter (\<lambda>c. call_retval c AND RED_STACK_TRANSCEIVE_DATA_SEND = 0) cs) =
                tries' - tries"
  using assms
proof (induction dev n tries pkt s arbitrary: tries' pkt' s' rule: send_loop.induct)
  case (1 dev n tries pkt s)
  show ?case
  proof (cases "tries < RED_STACK_SPI_ROUTING_TRIES")
    case False
    then have "tries' = tries" "s' = s"
      using "1.prems"(1) by (simp_all add: send_loop.simps)
    moreover have "tries = 10" using False "1.prems"(4) by (simp add: red_stack_consts)
    ultimately show ?thesis
      using probe_step_refl_send_loop [OF "1.prems"(2)] by auto
  next
    case True
    obtain ret pkt1 s1 where t: "transceive dev (Some stack_enumerate_request) pkt n s = (ret, pkt1, s1)"
      by (cases "transceive dev (Some stack_enumerate_request) pkt n s")
    from transceive_step [OF "1.prems"(2) t] obtain c where
      c: "probe_step n True s s1 [c]" "call_retval c = ret" by auto
    show ?thesis
    proof (cases "ret AND RED_STACK_TRANSCEIVE_DATA_SEND \<noteq> 0")
      case sent: True
      then have "tries' = tries" "s' = s1"
        using "1.prems"(1) True t by (simp_all add: send_loop.simps)
      then show ?thesis using c sent "1.prems"(4) by (intro exI [of _ "[c]"]) simp
    next
      case notsent: False
      have rec: "send_loop dev n (tries + 1) pkt1 s1 = (tries', pkt', s')"
        using "1.prems"(1) True t notsent by (simp add: send_loop.simps)
      from c(1) obtain st where st: "st \<noteq> RED_STACK_SLAVE_STATUS_ABSENT"
        "slaves s1 = (slaves s)[n := (slaves s ! n)\<lparr>status := st\<rparr>]"
        by (auto simp add: probe_step_def)
      have p2: "status (slaves s1 ! n) \<noteq> RED_STACK_SLAVE_STATUS_ABSENT"
        and p3: "n < length (slaves s1)"
        using st "1.prems"(3) by simp_all
      have p4: "tries + 1 \<le> 10" using True by (simp add: red_stack_consts)
      from "1.IH" [OF True t [symmetric] refl notsent rec p2 p3 p4]
      obtain cs where cs: "probe_step n True s1 s' cs" "tries + 1 \<le> tries'" "tries' \<le> 10"
        "length (filter (\<lambda>c. call_retval c AND RED_STACK_TRANSCEIVE_DATA_SEND = 0) cs) =
           tries' - (tries + 1)"
        by auto
      have "probe_step n True s s' ([c] @ cs)"
        using probe_step_trans [OF c(1) cs(1) "1.prems"(3)] .
      then show ?thesis
        using cs c(2) notsent by (intro exI [of _ "[c] @ cs"]) simp
    qed
  qed
qed

lemma probe_step_refl_receive_loop: "status (slaves s ! n) \<noteq> RED_STACK_SLAVE_STATUS_ABSENT \<Longrightarrow> probe_step n False s s []"
  unfolding probe_step_def
  by (auto intro!: exI [of _ "status (slaves s ! n)"])

lemma receive_loop_step:
  assumes "receive_loop dev n tries pkt s = (tries', pkt', s')"
    and "status (slaves s ! n) \<noteq> RED_STACK_SLAVE_STATUS_ABSENT"
    and "n < length (slaves s)" and "tries \<le> 10"
  shows "\<exists>cs. probe_step n False s s' cs \<and> tries \<le> tries' \<and> tries' \<le> 10 \<and>
              length (filter (\<lambda>c. call_retval c AND RED_STACK_TRANSCEIVE_DATA_RECEIVED = 0) cs) =
                tries' - tries"
  using assms
proof (induction dev n tries pkt s arbitrary: tries' pkt' s' rule: receive_loop.induct)
  case (1 dev n tries pkt s)
  show ?case
  proof (cases "tries < RED_STACK_SPI_ROUTING_TRIES")
    case False
    then have "tries' = tries" "s' = s"
      using "1.prems"(1) by (simp_all add: receive_loop.simps)
    moreover have "tries = 10" using False "1.prems"(4) by (simp add: red_stack_consts)
    ultimately show ?thesis
      using probe_step_refl_receive_loop [OF "1.prems"(2)] by auto
  next
    case True
    obtain ret pkt1 s1 where t: "transceive dev None pkt n s = (ret, pkt1, s1)"
      by (cases "transceive dev None pkt n s")
    from transceive_step [OF "1.prems"(2) t] obtain c where
      c: "probe_step n False s s1 [c]" "call_retval c = ret" by auto
    show ?thesis
    proof (cases "ret AND RED_STACK_TRANSCEIVE_DATA_RECEIVED \<noteq> 0")
      case sent: True
      then have "tries' = tries" "s' = s1"
        using "1.prems"(1) True t by (simp_all add: receive_loop.simps)
      then show ?thesis using c sent "1.prems"(4) by (intro exI [of _ "[c]"]) simp
    next
      case notsent: False
      have rec: "receive_loop dev n (tries + 1) pkt1 s1 = (tries', pkt', s')"
        using "1.prems"(1) True t notsent by (simp add: receive_loop.simps)
      from c(1) obtain st where st: "st \<noteq> RED_STACK_SLAVE_STATUS_ABSENT"
        "slaves s1 = (slaves s)[n := (slaves s ! n)\<lparr>status := st\<rparr>]"
        by (auto simp add: probe_step_def)
      have p2: "status (slaves s1 ! n) \<noteq> RED_STACK_SLAVE_STATUS_ABSENT"
        and p3: "n < length (slaves s1)"
        using st "1.prems"(3) by simp_all
      have p4: "tries + 1 \<le> 10" using True by (simp add: red_stack_consts)
      from "1.IH" [OF True t [symmetric] refl notsent rec p2 p3 p4]
      obtain cs where cs: "probe_step n False s1 s' cs" "tries + 1 \<le> tries'" "tries' \<le> 10"
        "length (filter (\<lambda>c. call_retval c AND RED_STACK_TRANSCEIVE_DATA_RECEIVED = 0) cs) =
           tries' - (tries + 1)"
        by auto
      have "probe_step n False s s' ([c] @ cs)"
        using probe_step_trans [OF c(1) cs(1) "1.prems"(3)] .
      then show ?thesis
        using cs c(2) notsent by (intro exI [of _ "[c] @ cs"]) simp
    qed
  qed
qed

lemma failed_append [simp]:
  "failed_sends n (xs @ ys) = failed_sends n xs + failed_sends n ys"
  "failed_polls n (xs @ ys) = failed_polls n xs + failed_polls n ys"
  by (simp_all add: failed_sends_def failed_polls_def)

lemma failed_other:
  assumes "\<forall>c \<in> set cs. call_slave c \<noteq> n"
  shows "failed_sends n cs = 0" and "failed_polls n cs = 0"
  using assms by (simp_all add: failed_sends_def failed_polls_def)

lemma failed_of_sends:
  assumes "\<forall>c \<in> set cs. call_slave c = n \<and> call_request c = True"
  shows "failed_sends n cs =
           length (filter (\<lambda>c. call_retval c AND RED_STACK_TRANSCEIVE_DATA_SEND = 0) cs)"
    and "failed_polls n cs = 0"
proof -
  have "filter (\<lambda>c. call_slave c = n \<and> call_request c \<and>
                          call_retval c AND RED_STACK_TRANSCEIVE_DATA_SEND = 0) cs =
        filter (\<lambda>c. call_retval c AND RED_STACK_TRANSCEIVE_DATA_SEND = 0) cs"
    using assms by (intro filter_cong) auto
  then show "failed_sends n cs =
           length (filter (\<lambda>c. call_retval c AND RED_STACK_TRANSCEIVE_DATA_SEND = 0) cs)"
    by (simp add: failed_sends_def)
  show "failed_polls n cs = 0" using assms by (simp add: failed_polls_def)
qed

lemma failed_of_polls:
  assumes "\<forall>c \<in> set cs. call_slave c = n \<and> call_request c = False"
  shows "failed_polls n cs =
           length (filter (\<lambda>c. call_retval c AND RED_STACK_TRANSCEIVE_DATA_RECEIVED = 0) cs)"
    and "failed_sends n cs = 0"
proof -
  have "filter (\<lambda>c. call_slave c = n \<and> \<not> call_request c \<and>
                          call_retval c AND RED_STACK_TRANSCEIVE_DATA_RECEIVED = 0) cs =
        filter (\<lambda>c. call_retval c AND RED_STACK_TRANSCEIVE_DATA_RECEIVED = 0) cs"
    using assms by (intro filter_cong) auto
  then show "failed_polls n cs =
           length (filter (\<lambda>c. call_retval c AND RED_STACK_TRANSCEIVE_DATA_RECEIVED = 0) cs)"
    by (simp add: failed_polls_def)
  show "failed_sends n cs = 0" using assms by (simp add: failed_sends_def)
qed

lemma uids_loop_step:
  assumes "uids_loop n i response s = (i', s')"
    and "n < length (slaves s)"
    and "length (uids (slaves s ! n)) = PACKET_STACK_ENUMERATE_MAX_UIDS"
    and "i \<le> PACKET_STACK_ENUMERATE_MAX_UIDS"
  shows "i \<le> i' \<and> i' \<le> PACKET_STACK_ENUMERATE_MAX_UIDS \<and>
         s' = s\<lparr>slaves := slaves s', base_uids := base_uids s'\<rparr> \<and>
         (\<exists>U. slaves s' = (slaves s)[n := (slaves s ! n)\<lparr>uids := U\<rparr>] \<and>
              length U = PACKET_STACK_ENUMERATE_MAX_UIDS \<and>
              (\<forall>j < PACKET_STACK_ENUMERATE_MAX_UIDS.
                 U ! j = (if i \<le> j \<and> j < i' then response_uids response j
                          else uids (slaves s ! n) ! j))) \<and>
         (\<forall>j. i \<le> j \<and> j < i' \<longrightarrow> response_uids response j \<noteq> 0)"
  using assms
proof (induction n i response s arbitrary: i' s' rule: uids_loop.induct)
  case (1 n i response s)
  show ?case
  proof (cases "i < PACKET_STACK_ENUMERATE_MAX_UIDS \<and> response_uids response i \<noteq> 0")
    case False
    then have "uids_loop n i response s = (i, s)" by (subst uids_loop.simps) auto
    then have "i' = i" "s' = s" using "1.prems"(1) by simp_all
    then show ?thesis
      using "1.prems"(3,4)
      by (auto intro!: exI [of _ "uids (slaves s ! n)"])
  next
    case True
    define u where "u = response_uids response i"
    define s1 where "s1 = s\<lparr>slaves := (slaves s)[n := (slaves s ! n)
                              \<lparr>uids := (uids (slaves s ! n))[i := u]\<rparr>],
                base_uids := base_uids s @ [u]\<rparr>"
    have rec: "uids_loop n (i + 1) response s1 = (i', s')"
      using "1.prems"(1) True by (simp add: uids_loop.simps s1_def u_def)
    have sl1: "slaves s1 ! n = (slaves s ! n)\<lparr>uids := (uids (slaves s ! n))[i := u]\<rparr>"
      using "1.prems"(2) by (simp add: s1_def)
    have p2: "n < length (slaves s1)" using "1.prems"(2) by (simp add: s1_def)
    have p3: "length (uids (slaves s1 ! n)) = PACKET_STACK_ENUMERATE_MAX_UIDS"
      using "1.prems"(3) by (simp add: sl1)
    have p4: "i + 1 \<le> PACKET_STACK_ENUMERATE_MAX_UIDS" using True by simp
    from "1.IH" [OF conjunct1 [OF True] conjunct2 [OF True] rec [unfolded s1_def u_def]
        p2 [unfolded s1_def u_def] p3 [unfolded s1_def u_def] p4]
    obtain U where ih: "i + 1 \<le> i'" "i' \<le> PACKET_STACK_ENUMERATE_MAX_UIDS"
      "s' = s1\<lparr>slaves := slaves s', base_uids := base_uids s'\<rparr>"
      "slaves s' = (slaves s1)[n := (slaves s1 ! n)\<lparr>uids := U\<rparr>]"
      "length U = PACKET_STACK_ENUMERATE_MAX_UIDS"
      "\<forall>j < PACKET_STACK_ENUMERATE_MAX_UIDS.
                 U ! j = (if i + 1 \<le> j \<and> j < i' then response_uids response j
                          else uids (slaves s1 ! n) ! j)"
      "\<forall>j. i + 1 \<le> j \<and> j < i' \<longrightarrow> response_uids response j \<noteq> 0"
      unfolding s1_def [symmetric] u_def [symmetric] by blast
    have a: "s' = s\<lparr>slaves := slaves s', base_uids := base_uids s'\<rparr>"
      by (subst ih(3)) (simp add: s1_def)
    have b: "slaves s' = (slaves s)[n := (slaves s ! n)\<lparr>uids := U\<rparr>]"
      using "1.prems"(2) by (simp add: ih(4) sl1) (simp add: s1_def)
    have c: "\<forall>j < PACKET_STACK_ENUMERATE_MAX_UIDS.
                 U ! j = (if i \<le> j \<and> j < i' then response_uids response j
                          else uids (slaves s ! n) ! j)"
    proof (intro allI impI)
      fix j assume j: "j < PACKET_STACK_ENUMERATE_MAX_UIDS"
      show "U ! j = (if i \<le> j \<and> j < i' then response_uids response j
                          else uids (slaves s ! n) ! j)"
      proof (cases "j = i")
        case True
        then show ?thesis
          using ih(6) j ih(1) "1.prems"(3) by (simp add: sl1 u_def)
      next
        case False
        then show ?thesis
          using ih(6) j by (auto simp add: sl1)
      qed
    qed
    have d: "\<forall>j. i \<le> j \<and> j < i' \<longrightarrow> response_uids response j \<noteq> 0"
      using ih(7) True by (metis Suc_eq_plus1 Suc_leI le_neq_implies_less)
    show ?thesis using ih(1,2,5) a b c d by auto
  qed
qed

lemma probe_stepD:
  assumes "probe_step n req s s' cs" and "n < length (slaves s)"
  obtains st where "st \<noteq> RED_STACK_SLAVE_STATUS_ABSENT"
    and "slaves s' = (slaves s)[n := (slaves s ! n)\<lparr>status := st\<rparr>]"
    and "calls s' = calls s @ cs"
    and "\<forall>c \<in> set cs. call_slave c = n \<and> call_request c = req \<and>
                    call_status c \<noteq> RED_STACK_SLAVE_STATUS_ABSENT"
proof -
  from assms(1) obtain st where st: "st \<noteq> RED_STACK_SLAVE_STATUS_ABSENT"
    "slaves s' = (slaves s)[n := (slaves s ! n)\<lparr>status := st\<rparr>]"
    and e: "s' = s\<lparr>slaves := slaves s', spi_state := spi_state s', log := log s',
            calls := calls s @ cs\<rparr>"
    and c: "\<forall>c \<in> set cs. call_slave c = n \<and> call_request c = req \<and>
                    call_status c \<noteq> RED_STACK_SLAVE_STATUS_ABSENT"
    unfolding probe_step_def by blast
  have "calls s' = calls s @ cs" by (subst e) simp
  then show ?thesis using that st c by blast
qed

lemma discovering_slot:
  assumes len: "length (slaves s) = 8" and a: "a < 8"
    and found: "\<forall>n < a. slot_found n s"
    and rest: "\<forall>n. a \<le> n \<and> n < 8 \<longrightarrow> slaves s ! n = init_slave n"
    and cl: "\<forall>c \<in> set (calls s). call_slave c < a \<and>
               call_status c \<noteq> RED_STACK_SLAVE_STATUS_ABSENT"
    and sl: "slaves s' = (slaves s)[a := sl']"
    and cs: "calls s' = calls s @ cs"
      "\<forall>c \<in> set cs. call_slave c = a \<and> call_status c \<noteq> RED_STACK_SLAVE_STATUS_ABSENT"
  shows "length (slaves s') = 8"
    and "\<forall>n < a. slot_found n s'"
    and "\<forall>n. a < n \<and> n < 8 \<longrightarrow> slaves s' ! n = init_slave n"
    and "\<forall>c \<in> set (calls s'). call_slave c \<le> a \<and> call_slave c < 8 \<and>
           call_status c \<noteq> RED_STACK_SLAVE_STATUS_ABSENT"
    and "failed_sends a (calls s') = failed_sends a cs"
    and "failed_polls a (calls s') = failed_polls a cs"
    and "slaves s' ! a = sl'"
proof -
  show "length (slaves s') = 8" using len sl by simp
  show "slaves s' ! a = sl'" using len a sl by simp
  show "\<forall>n. a < n \<and> n < 8 \<longrightarrow> slaves s' ! n = init_slave n"
    using rest sl by simp
  show "\<forall>c \<in> set (calls s'). call_slave c \<le> a \<and> call_slave c < 8 \<and>
           call_status c \<noteq> RED_STACK_SLAVE_STATUS_ABSENT"
    using cl cs a by fastforce
  have z: "\<forall>c \<in> set (calls s). call_slave c \<noteq> a" using cl by fastforce
  show "failed_sends a (calls s') = failed_sends a cs"
    and "failed_polls a (calls s') = failed_polls a cs"
    using failed_other [OF z] by (simp_all add: cs(1))
  show "\<forall>n < a. slot_found n s'"
  proof (intro allI impI)
    fix n assume n: "n < a"
    have o: "\<forall>c \<in> set cs. call_slave c \<noteq> n" using cs(2) n by fastforce
    have "slaves s' ! n = slaves s ! n" using sl n by simp
    then show "slot_found n s'"
      using found n failed_other [OF o] by (simp add: slot_found_def cs(1))
  qed
qed

lemma init_slave_absent [simp]:
  "(init_slave a)\<lparr>status := RED_STACK_SLAVE_STATUS_ABSENT\<rparr> = init_slave a"
  by (simp add: init_slave_def)

lemma set_status_simps [simp]:
  "slaves (set_status n st s) = (slaves s)[n := (slaves s ! n)\<lparr>status := st\<rparr>]"
  "calls (set_status n st s) = calls s"
  by (simp_all add: set_status_def)

lemma routing_loop_discovered:
  assumes "routing_loop dev uninit a s = (a', s')"
    and "a \<le> 8" and "length (slaves s) = 8"
    and "\<forall>n < a. slot_found n s"
    and "\<forall>n. a \<le> n \<and> n < 8 \<longrightarrow> slaves s ! n = init_slave n"
    and "\<forall>c \<in> set (calls s). call_slave c < a \<and>
           call_status c \<noteq> RED_STACK_SLAVE_STATUS_ABSENT"
  shows "discovered a' s'"
  using assms
proof (induction dev uninit a s arbitrary: a' s' rule: routing_loop.induct)
  case (1 dev uninit a s)
  note len = "1.prems"(3) and found = "1.prems"(4) and rest = "1.prems"(5) and cl = "1.prems"(6)
  show ?case
  proof (cases "a < RED_STACK_SPI_MAX_SLAVES")
    case False
    then have a8: "a = 8" using "1.prems"(2) by (simp add: red_stack_consts)
    have "routing_loop dev uninit a s = (a, s)"
      using False by (subst routing_loop.simps) simp
    then have "a' = a" "s' = s" using "1.prems"(1) by simp_all
    then show ?thesis
      using a8 len found cl by (fastforce simp add: discovered_def red_stack_consts)
  next
    case True
    then have a: "a < 8" by (simp add: red_stack_consts)
    define s0 where "s0 = set_status a RED_STACK_SLAVE_STATUS_AVAILABLE s"
    have ia: "slaves s ! a = init_slave a" using rest a by simp
    obtain t1 pkt1 s1 where send: "send_loop dev a 0 (uninit a) s0 = (t1, pkt1, s1)"
      by (cases "send_loop dev a 0 (uninit a) s0")
    have s0a: "status (slaves s0 ! a) \<noteq> RED_STACK_SLAVE_STATUS_ABSENT"
      and s0l: "a < length (slaves s0)"
      using a len by (simp_all add: s0_def)
    from send_loop_step [OF send s0a s0l] obtain cs1 where
      p1: "probe_step a True s0 s1 cs1" and t1: "t1 \<le> 10"
      and n1: "length (filter (\<lambda>c. call_retval c AND RED_STACK_TRANSCEIVE_DATA_SEND = 0) cs1) = t1"
      by auto
    from probe_stepD [OF p1 s0l] obtain st1 where
      st1: "st1 \<noteq> RED_STACK_SLAVE_STATUS_ABSENT"
      and sl1': "slaves s1 = (slaves s0)[a := (slaves s0 ! a)\<lparr>status := st1\<rparr>]"
      and c1': "calls s1 = calls s0 @ cs1"
      and cs1: "\<forall>c \<in> set cs1. call_slave c = a \<and> call_request c = True \<and>
                    call_status c \<noteq> RED_STACK_SLAVE_STATUS_ABSENT"
      by blast
    have sl1: "slaves s1 = (slaves s)[a := (init_slave a)\<lparr>status := st1\<rparr>]"
      using a len ia by (simp add: sl1' s0_def)
    have c1: "calls s1 = calls s @ cs1" by (simp add: c1' s0_def)
    have f1: "failed_sends a cs1 = t1" "failed_polls a cs1 = 0"
      using failed_of_sends [of cs1 a] cs1 n1 by simp_all
    show ?thesis
    proof (cases "t1 = RED_STACK_SPI_ROUTING_TRIES")
      case True
      have "routing_loop dev uninit a s = (a, set_status a RED_STACK_SLAVE_STATUS_ABSENT s1)"
        using \<open>a < RED_STACK_SPI_MAX_SLAVES\<close> send True
        by (subst routing_loop.simps) (simp add: s0_def)
      then have r: "a' = a" "s' = set_status a RED_STACK_SLAVE_STATUS_ABSENT s1"
        using "1.prems"(1) by simp_all
      have sl: "slaves s' = (slaves s)[a := init_slave a]"
        using a len by (simp add: r sl1)
      have cc: "calls s' = calls s @ cs1" by (simp add: r c1)
      have cs: "\<forall>c \<in> set cs1. call_slave c = a \<and>
                  call_status c \<noteq> RED_STACK_SLAVE_STATUS_ABSENT" using cs1 by blast
      note d = discovering_slot [OF len a found rest cl sl cc cs]
      have "\<forall>n. a \<le> n \<and> n < 8 \<longrightarrow> slaves s' ! n = init_slave n"
        using d(3,7) by (metis le_neq_implies_less)
      then show ?thesis
        using d(1,2,4,5) a f1 True
        by (simp add: discovered_def r(1) red_stack_consts)
    next
      case False
      then have t1': "t1 < 10" using t1 by (simp add: red_stack_consts)
      obtain t2 pkt2 s2 where recv: "receive_loop dev a 0 pkt1 s1 = (t2, pkt2, s2)"
        by (cases "receive_loop dev a 0 pkt1 s1")
      have s1a: "status (slaves s1 ! a) \<noteq> RED_STACK_SLAVE_STATUS_ABSENT"
        and s1l: "a < length (slaves s1)"
        using a len st1 by (simp_all add: sl1)
      from receive_loop_step [OF recv s1a s1l] obtain cs2 where
        p2: "probe_step a False s1 s2 cs2" and t2: "t2 \<le> 10"
        and n2: "length (filter (\<lambda>c. call_retval c AND RED_STACK_TRANSCEIVE_DATA_RECEIVED = 0) cs2) = t2"
        by auto
      from probe_stepD [OF p2 s1l] obtain st2 where
        st2: "st2 \<noteq> RED_STACK_SLAVE_STATUS_ABSENT"
        and sl2': "slaves s2 = (slaves s1)[a := (slaves s1 ! a)\<lparr>status := st2\<rparr>]"
        and c2': "calls s2 = calls s1 @ cs2"
        and cs2: "\<forall>c \<in> set cs2. call_slave c = a \<and> call_request c = False \<and>
                    call_status c \<noteq> RED_STACK_SLAVE_STATUS_ABSENT"
        by blast
      have sl2: "slaves s2 = (slaves s)[a := (init_slave a)\<lparr>status := st2\<rparr>]"
        using a len by (simp add: sl2' sl1)
      have c2: "calls s2 = calls s @ (cs1 @ cs2)" by (simp add: c2' c1)
      have f2: "failed_polls a cs2 = t2" "failed_sends a cs2 = 0"
        using failed_of_polls [of cs2 a] cs2 n2 by simp_all
      have cs: "\<forall>c \<in> set (cs1 @ cs2). call_slave c = a \<and>
                  call_status c \<noteq> RED_STACK_SLAVE_STATUS_ABSENT" using cs1 cs2 by auto
      show ?thesis
      proof (cases "t2 = RED_STACK_SPI_ROUTING_TRIES")
        case True
        have "routing_loop dev uninit a s = (a, set_status a RED_STACK_SLAVE_STATUS_ABSENT s2)"
          using \<open>a < RED_STACK_SPI_MAX_SLAVES\<close> send \<open>t1 \<noteq> RED_STACK_SPI_ROUTING_TRIES\<close> recv True
          by (subst routing_loop.simps) (simp add: s0_def)
        then have r: "a' = a" "s' = set_status a RED_STACK_SLAVE_STATUS_ABSENT s2"
          using "1.prems"(1) by simp_all
        have sl: "slaves s' = (slaves s)[a := init_slave a]"
          using a len by (simp add: r sl2)
        have cc: "calls s' = calls s @ (cs1 @ cs2)" by (simp add: r c2)
        note d = discovering_slot [OF len a found rest cl sl cc cs]
        have "\<forall>n. a \<le> n \<and> n < 8 \<longrightarrow> slaves s' ! n = init_slave n"
          using d(3,7) by (metis le_neq_implies_less)
        then show ?thesis
          using d(1,2,4,6) a f1 f2 True
          by (simp add: discovered_def r(1) red_stack_consts)
      next
        case False
        then have t2': "t2 < 10" using t2 by (simp add: red_stack_consts)
        obtain i s3 where ul: "uids_loop a 0 pkt2 s2 = (i, s3)"
          by (cases "uids_loop a 0 pkt2 s2")
        define s4 where "s4 = s3\<lparr>slaves := (slaves s3)[a :=
                                   (slaves s3 ! a)\<lparr>uids_num := word_of_nat i\<rparr>]\<rparr>"
        have rl: "routing_loop dev uninit a s = routing_loop dev uninit (a + 1) s4"
          using \<open>a < RED_STACK_SPI_MAX_SLAVES\<close> send \<open>t1 \<noteq> RED_STACK_SPI_ROUTING_TRIES\<close> recv False ul
          by (subst routing_loop.simps) (simp add: s0_def s4_def)
        have s2l: "a < length (slaves s2)" using a len by (simp add: sl2)
        have s2u: "length (uids (slaves s2 ! a)) = PACKET_STACK_ENUMERATE_MAX_UIDS"
          using a len by (simp add: sl2 init_slave_def)
        from uids_loop_step [OF ul s2l s2u] obtain U where
          i: "i \<le> PACKET_STACK_ENUMERATE_MAX_UIDS"
          and e3: "s3 = s2\<lparr>slaves := slaves s3, base_uids := base_uids s3\<rparr>"
          and sl3: "slaves s3 = (slaves s2)[a := (slaves s2 ! a)\<lparr>uids := U\<rparr>]"
          and lU: "length U = PACKET_STACK_ENUMERATE_MAX_UIDS"
          and U: "\<forall>j < PACKET_STACK_ENUMERATE_MAX_UIDS.
                 U ! j = (if 0 \<le> j \<and> j < i then response_uids pkt2 j
                          else uids (slaves s2 ! a) ! j)"
          and nz: "\<forall>j. 0 \<le> j \<and> j < i \<longrightarrow> response_uids pkt2 j \<noteq> 0"
          by auto
        have c3: "calls s3 = calls s2" by (subst e3) simp
        define sl4 where "sl4 = (init_slave a)\<lparr>status := st2, uids := U, uids_num := word_of_nat i\<rparr>"
        have sl: "slaves s4 = (slaves s)[a := sl4]"
          using a len by (simp add: s4_def sl3 sl2 sl4_def)
        have cc: "calls s4 = calls s @ (cs1 @ cs2)" by (simp add: s4_def c3 c2)
        note d = discovering_slot [OF len a found rest cl sl cc cs]
        have ui: "unat (word_of_nat i :: u8) = i"
          using i by (simp add: red_stack_consts unat_of_nat)
        have "uids_ok sl4"
          using U nz lU i a len
          by (auto simp add: uids_ok_def sl4_def ui sl2 init_slave_def)
        then have fa: "slot_found a s4"
          using st2 d(5,6,7) f1 f2 t1' t2'
          by (simp add: slot_found_def sl4_def red_stack_consts)
        have q1: "a + 1 \<le> 8" using a by simp
        have q3: "\<forall>n < a + 1. slot_found n s4"
          using d(2) fa by (metis Suc_eq_plus1 less_Suc_eq)
        have q4: "\<forall>n. a + 1 \<le> n \<and> n < 8 \<longrightarrow> slaves s4 ! n = init_slave n"
          using d(3) by simp
        have q5: "\<forall>c \<in> set (calls s4). call_slave c < a + 1 \<and>
                    call_status c \<noteq> RED_STACK_SLAVE_STATUS_ABSENT"
          using d(4) by fastforce
        have rec: "routing_loop dev uninit (a + 1) s4 = (a', s')"
          using "1.prems"(1) rl by simp
        show ?thesis
          using "1.IH" [OF \<open>a < RED_STACK_SPI_MAX_SLAVES\<close> send [unfolded s0_def, symmetric] refl
              \<open>t1 \<noteq> RED_STACK_SPI_ROUTING_TRIES\<close> recv [symmetric] refl False ul [symmetric]
              rec [unfolded s4_def] q1 d(1) [unfolded s4_def] q3 [unfolded s4_def]
              q4 [unfolded s4_def] q5 [unfolded s4_def]] .
      qed
    qed
  qed
qed

lemma transceive_frame:
  assumes "transceive dev packet_send pr n s = (ret, pkt, s')"
  shows "packet_to_spi_queue s' = packet_to_spi_queue s \<and>
         stack_address_cycle s' = stack_address_cycle s \<and> slave_num s' = slave_num s"
  using assms by (auto simp add: transceive_eq Let_def)

lemma send_loop_frame:
  assumes "send_loop dev n tries pkt s = (tries', pkt', s')"
  shows "packet_to_spi_queue s' = packet_to_spi_queue s \<and>
         stack_address_cycle s' = stack_address_cycle s \<and> slave_num s' = slave_num s"
  using assms
proof (induction dev n tries pkt s arbitrary: tries' pkt' s' rule: send_loop.induct)
  case (1 dev n tries pkt s)
  obtain ret pkt1 s1 where t: "transceive dev (Some stack_enumerate_request) pkt n s = (ret, pkt1, s1)"
    by (cases "transceive dev (Some stack_enumerate_request) pkt n s")
  show ?case
  proof (cases "tries < RED_STACK_SPI_ROUTING_TRIES \<and> ret AND RED_STACK_TRANSCEIVE_DATA_SEND = 0")
    case True
    then have "send_loop dev n (tries + 1) pkt1 s1 = (tries', pkt', s')"
      using "1.prems" t by (subst (asm) send_loop.simps) simp
    from "1.IH" [OF conjunct1 [OF True] t [symmetric] refl _ this] True transceive_frame [OF t]
    show ?thesis by simp
  next
    case False
    then have "s' = s \<or> s' = s1"
      using "1.prems" t by (subst (asm) send_loop.simps) (auto split: if_splits)
    then show ?thesis using transceive_frame [OF t] by auto
  qed
qed

lemma receive_loop_frame:
  assumes "receive_loop dev n tries pkt s = (tries', pkt', s')"
  shows "packet_to_spi_queue s' = packet_to_spi_queue s \<and>
         stack_address_cycle s' = stack_address_cycle s \<and> slave_num s' = slave_num s"
  using assms
proof (induction dev n tries pkt s arbitrary: tries' pkt' s' rule: receive_loop.induct)
  case (1 dev n tries pkt s)
  obtain ret pkt1 s1 where t: "transceive dev None pkt n s = (ret, pkt1, s1)"
    by (cases "transceive dev None pkt n s")
  show ?case
  proof (cases "tries < RED_STACK_SPI_ROUTING_TRIES \<and> ret AND RED_STACK_TRANSCEIVE_DATA_RECEIVED = 0")
    case True
    then have "receive_loop dev n (tries + 1) pkt1 s1 = (tries', pkt', s')"
      using "1.prems" t by (subst (asm) receive_loop.simps) simp
    from "1.IH" [OF conjunct1 [OF True] t [symmetric] refl _ this] True transceive_frame [OF t]
    show ?thesis by simp
  next
    case False
    then have "s' = s \<or> s' = s1"
      using "1.prems" t by (subst (asm) receive_loop.simps) (auto split: if_splits)
    then show ?thesis using transceive_frame [OF t] by auto
  qed
qed

lemma uids_loop_frame:
  assumes "uids_loop n i response s = (i', s')"
  shows "packet_to_spi_queue s' = packet_to_spi_queue s \<and>
         stack_address_cycle s' = stack_address_cycle s \<and> slave_num s' = slave_num s"
  using assms
proof (induction n i response s arbitrary: i' s' rule: uids_loop.induct)
  case (1 n i response s)
  show ?case
  proof (cases "i < PACKET_STACK_ENUMERATE_MAX_UIDS \<and> response_uids response i \<noteq> 0")
    case True
    then have "uids_loop n (i + 1) response
             (s\<lparr>slaves := (slaves s)[n := (slaves s ! n)
                              \<lparr>uids := (uids (slaves s ! n))[i := response_uids response i]\<rparr>],
                base_uids := base_uids s @ [response_uids response i]\<rparr>) = (i', s')"
      using "1.prems" by (subst (asm) uids_loop.simps) simp
    from "1.IH" [OF conjunct1 [OF True] conjunct2 [OF True] this] show ?thesis by simp
  next
    case False
    then have "uids_loop n i response s = (i, s)" by (subst uids_loop.simps) auto
    then show ?thesis using "1.prems" by simp
  qed
qed

lemma set_status_frame [simp]:
  "packet_to_spi_queue (set_status n st s) = packet_to_spi_queue s"
  "stack_address_cycle (set_status n st s) = stack_address_cycle s"
  "slave_num (set_status n st s) = slave_num s"
  by (simp_all add: set_status_def)

lemma routing_loop_frame:
  assumes "routing_loop dev uninit a s = (a', s')"
  shows "packet_to_spi_queue s' = packet_to_spi_queue s \<and>
         stack_address_cycle s' = stack_address_cycle s"
  using assms
proof (induction dev uninit a s arbitrary: a' s' rule: routing_loop.induct)
  case (1 dev uninit a s)
  define s0 where "s0 = set_status a RED_STACK_SLAVE_STATUS_AVAILABLE s"
  have f0: "packet_to_spi_queue s0 = packet_to_spi_queue s \<and>
            stack_address_cycle s0 = stack_address_cycle s"
    by (simp add: s0_def)
  obtain t1 pkt1 s1 where send: "send_loop dev a 0 (uninit a) s0 = (t1, pkt1, s1)"
    by (cases "send_loop dev a 0 (uninit a) s0")
  obtain t2 pkt2 s2 where recv: "receive_loop dev a 0 pkt1 s1 = (t2, pkt2, s2)"
    by (cases "receive_loop dev a 0 pkt1 s1")
  obtain i s3 where ul: "uids_loop a 0 pkt2 s2 = (i, s3)"
    by (cases "uids_loop a 0 pkt2 s2")
  note f1 = send_loop_frame [OF send] and f2 = receive_loop_frame [OF recv]
    and f3 = uids_loop_frame [OF ul]
  show ?case
  proof (cases "a < RED_STACK_SPI_MAX_SLAVES")
    case False
    then have "routing_loop dev uninit a s = (a, s)" by (subst routing_loop.simps) simp
    then show ?thesis using "1.prems" by simp
  next
    case True
    show ?thesis
    proof (cases "t1 = RED_STACK_SPI_ROUTING_TRIES")
      case t: True
      have "routing_loop dev uninit a s = (a, set_status a RED_STACK_SLAVE_STATUS_ABSENT s1)"
        using True send t by (subst routing_loop.simps) (simp add: s0_def)
      then show ?thesis using "1.prems" f0 f1 by auto
    next
      case t: False
      show ?thesis
      proof (cases "t2 = RED_STACK_SPI_ROUTING_TRIES")
        case u: True
        have "routing_loop dev uninit a s = (a, set_status a RED_STACK_SLAVE_STATUS_ABSENT s2)"
          using True send t recv u by (subst routing_loop.simps) (simp add: s0_def)
        then show ?thesis using "1.prems" f0 f1 f2 by auto
      next
        case u: False
        define s4 where "s4 = s3\<lparr>slaves := (slaves s3)[a :=
                                   (slaves s3 ! a)\<lparr>uids_num := word_of_nat i\<rparr>]\<rparr>"
        have "routing_loop dev uninit a s = routing_loop dev uninit (a + 1) s4"
          using True send t recv u ul by (subst routing_loop.simps) (simp add: s0_def s4_def)
        then have rec: "routing_loop dev uninit (a + 1) s4 = (a', s')" using "1.prems" by simp
        from "1.IH" [OF True send [unfolded s0_def, symmetric] refl t recv [symmetric] refl u
            ul [symmetric] rec [unfolded s4_def]]
        show ?thesis using f0 f1 f2 f3 by (simp add: s4_def)
      qed
    qed
  qed
qed

lemma booting_init:
  assumes "booting d s"
  shows "s = (red_stack_init_spi d)\<lparr>log := log s\<rparr>"
  using assms
proof (induction rule: booting.induct)
  case boot_init
  then show ?case by simp
next
  case (boot_dispatch s request)
  have n: "unat (slave_num s) = 0" and q: "slave_num s = 0"
    by (subst boot_dispatch.IH, simp add: red_stack_init_spi_def)+
  have l: "slave_loop s (header_uid request) 0 = None"
    by (subst slave_loop.simps) (simp add: n)
  have "red_stack_dispatch_to_spi request s = s \<or>
        red_stack_dispatch_to_spi request s = s\<lparr>log := log s @ [Error_unknown_uid (header_uid request)]\<rparr>"
    by (simp add: red_stack_dispatch_to_spi_def broadcast_loop_eq n
        red_stack_spi_get_slave_for_uid_def l)
  then show ?case
    using boot_dispatch.IH by (metis (no_types, lifting) REDStack.surjective REDStack.update_convs(9) REDStack.select_convs(9))
qed

lemma booting_fields:
  assumes "booting d s"
  shows "slaves s = map init_slave [0..<RED_STACK_SPI_MAX_SLAVES]" and "calls s = []"
    and "packet_to_spi_queue s = []" and "stack_address_cycle s = 0"
  by (subst booting_init [OF assms], simp add: red_stack_init_spi_def)+

lemma discovery_discovered:
  assumes "booting d s0"
  obtains a s1 where "routing_loop dev uninit 0 s0 = (a, s1)" and "discovered a s1"
    and "red_stack_spi_create_routing_table dev uninit s0 = s1\<lparr>slave_num := word_of_nat a\<rparr>"
    and "unat (word_of_nat a :: u8) = a"
    and "packet_to_spi_queue s1 = []" and "stack_address_cycle s1 = 0"
proof -
  obtain a s1 where rl: "routing_loop dev uninit 0 s0 = (a, s1)"
    by (cases "routing_loop dev uninit 0 s0")
  note b = booting_fields [OF assms]
  have d: "discovered a s1"
    by (rule routing_loop_discovered [OF rl]) (simp_all add: b red_stack_consts)
  then have "a \<le> 8" by (simp add: discovered_def red_stack_consts)
  then have u: "unat (word_of_nat a :: u8) = a" by (simp add: unat_of_nat)
  have e: "red_stack_spi_create_routing_table dev uninit s0 = s1\<lparr>slave_num := word_of_nat a\<rparr>"
    by (simp add: red_stack_spi_create_routing_table_def rl)
  show ?thesis
    using that [OF rl d e u] routing_loop_frame [OF rl] b by simp
qed

lemma not_absent:
  "st \<noteq> RED_STACK_SLAVE_STATUS_ABSENT \<longleftrightarrow>
     st = RED_STACK_SLAVE_STATUS_AVAILABLE \<or> st = RED_STACK_SLAVE_STATUS_AVAILABLE_BUSY"
  by (cases st) simp_all

text \<open>
  C5. After the discovery, run on the stack as initialised, \<^verbatim>\<open>slave_num\<close> is at most
  8; every slot below it has an available or busy slave and used up the ten attempts
  of neither phase; the slot \<^verbatim>\<open>slave_num\<close> itself, when it is below 8, used up the
  ten attempts of its send phase or of its receive phase; every slot from
  \<^verbatim>\<open>slave_num\<close> on is absent; and no call of the transceiver was made on a slot
  above \<^verbatim>\<open>slave_num\<close>.
\<close>

theorem discovery_postcondition:
  assumes "booting d s0" and "s = red_stack_spi_create_routing_table dev uninit s0"
  shows "unat (slave_num s) \<le> RED_STACK_SPI_MAX_SLAVES \<and>
         (\<forall>n < unat (slave_num s).
            (status (slaves s ! n) = RED_STACK_SLAVE_STATUS_AVAILABLE \<or>
             status (slaves s ! n) = RED_STACK_SLAVE_STATUS_AVAILABLE_BUSY) \<and>
            failed_sends n (calls s) < RED_STACK_SPI_ROUTING_TRIES \<and>
            failed_polls n (calls s) < RED_STACK_SPI_ROUTING_TRIES) \<and>
         (unat (slave_num s) < RED_STACK_SPI_MAX_SLAVES \<longrightarrow>
            failed_sends (unat (slave_num s)) (calls s) = RED_STACK_SPI_ROUTING_TRIES \<or>
            failed_polls (unat (slave_num s)) (calls s) = RED_STACK_SPI_ROUTING_TRIES) \<and>
         (\<forall>n. unat (slave_num s) \<le> n \<and> n < RED_STACK_SPI_MAX_SLAVES \<longrightarrow>
            status (slaves s ! n) = RED_STACK_SLAVE_STATUS_ABSENT) \<and>
         (\<forall>c \<in> set (calls s). call_slave c \<le> unat (slave_num s) \<and>
                                call_slave c < RED_STACK_SPI_MAX_SLAVES)"
proof -
  from discovery_discovered [OF assms(1), of dev uninit] obtain a s1 where
    d: "discovered a s1"
    and e: "red_stack_spi_create_routing_table dev uninit s0 = s1\<lparr>slave_num := word_of_nat a\<rparr>"
    and u: "unat (word_of_nat a :: u8) = a"
    by metis
  have sn: "unat (slave_num s) = a" and sl: "slaves s = slaves s1" and cl: "calls s = calls s1"
    by (simp_all add: assms(2) e u)
  have "\<forall>n. a \<le> n \<and> n < RED_STACK_SPI_MAX_SLAVES \<longrightarrow>
            status (slaves s1 ! n) = RED_STACK_SLAVE_STATUS_ABSENT"
    using d by (simp add: discovered_def init_slave_def)
  then show ?thesis
    using d unfolding sn sl cl
    by (simp add: discovered_def slot_found_def not_absent)
qed

subsection \<open>The states of the stack\<close>

lemma inv_discovered:
  assumes "booting d s0"
  shows "stack_inv (red_stack_spi_create_routing_table dev uninit s0)"
proof -
  from discovery_discovered [OF assms, of dev uninit] obtain a s1 where
    d: "discovered a s1"
    and e: "red_stack_spi_create_routing_table dev uninit s0 = s1\<lparr>slave_num := word_of_nat a\<rparr>"
    and u: "unat (word_of_nat a :: u8) = a"
    and q: "packet_to_spi_queue s1 = []" "stack_address_cycle s1 = 0"
    by metis
  have z: "(word_of_nat a :: u8) \<noteq> 0 \<longrightarrow> 0 < a" using u by (cases a) auto
  show ?thesis
    using d z unfolding e
    by (simp add: stack_inv_def discovered_def slot_found_def u q)
qed

lemma inv_dispatch:
  assumes "stack_inv s"
  shows "stack_inv (red_stack_dispatch_to_spi request s)"
proof (cases "header_uid request = 0")
  case True
  then show ?thesis
    using assms by (auto simp add: red_stack_dispatch_to_spi_def broadcast_loop_eq stack_inv_def)
next
  case False
  show ?thesis
  proof (cases "red_stack_spi_get_slave_for_uid s (header_uid request)")
    case None
    then show ?thesis
      using assms False by (simp add: red_stack_dispatch_to_spi_def stack_inv_def)
  next
    case (Some k)
    then have "k < unat (slave_num s)"
      by (simp add: red_stack_spi_get_slave_for_uid_def slave_loop_Some)
    then show ?thesis
      using assms False Some by (simp add: red_stack_dispatch_to_spi_def stack_inv_def)
  qed
qed

lemma iteration_idle:
  assumes "packet_to_spi_queue s = []"
  shows "spi_thread_iteration dev s =
    (case transceive dev None (replicate SIZEOF_PACKET 0) (unat (stack_address_cycle s))
            (s\<lparr>packet_from_spi := replicate SIZEOF_PACKET 0,
               stack_address_cycle :=
                 (if stack_address_cycle s + 1 \<ge> slave_num s then 0
                  else stack_address_cycle s + 1)\<rparr>) of
       (ret, pkt, s1) \<Rightarrow>
         (let s2 = s1\<lparr>packet_from_spi := pkt\<rparr>;
              s3 = (if ret AND RED_STACK_TRANSCEIVE_DATA_SEND \<noteq> 0
                    then s2\<lparr>packet_to_spi_queue := tl (packet_to_spi_queue s2)\<rparr> else s2)
          in if ret AND RED_STACK_TRANSCEIVE_DATA_RECEIVED \<noteq> 0
             then s3\<lparr>dispatched := dispatched s3 @ [packet_from_spi s3]\<rparr> else s3))"
  using assms
  by (simp add: spi_thread_iteration_def Let_def split del: if_split split: prod.splits)

lemma iteration_tail:
  "slaves (let s2 = s1\<lparr>packet_from_spi := pkt\<rparr>;
              s3 = (if c1 then s2\<lparr>packet_to_spi_queue := tl (packet_to_spi_queue s2)\<rparr> else s2)
          in if c2 then s3\<lparr>dispatched := dispatched s3 @ [packet_from_spi s3]\<rparr> else s3) = slaves s1"
  "calls (let s2 = s1\<lparr>packet_from_spi := pkt\<rparr>;
              s3 = (if c1 then s2\<lparr>packet_to_spi_queue := tl (packet_to_spi_queue s2)\<rparr> else s2)
          in if c2 then s3\<lparr>dispatched := dispatched s3 @ [packet_from_spi s3]\<rparr> else s3) = calls s1"
  "slave_num (let s2 = s1\<lparr>packet_from_spi := pkt\<rparr>;
              s3 = (if c1 then s2\<lparr>packet_to_spi_queue := tl (packet_to_spi_queue s2)\<rparr> else s2)
          in if c2 then s3\<lparr>dispatched := dispatched s3 @ [packet_from_spi s3]\<rparr> else s3) = slave_num s1"
  "stack_address_cycle (let s2 = s1\<lparr>packet_from_spi := pkt\<rparr>;
              s3 = (if c1 then s2\<lparr>packet_to_spi_queue := tl (packet_to_spi_queue s2)\<rparr> else s2)
          in if c2 then s3\<lparr>dispatched := dispatched s3 @ [packet_from_spi s3]\<rparr> else s3) =
     stack_address_cycle s1"
  "packet_to_spi_queue (let s2 = s1\<lparr>packet_from_spi := pkt\<rparr>;
              s3 = (if c1 then s2\<lparr>packet_to_spi_queue := tl (packet_to_spi_queue s2)\<rparr> else s2)
          in if c2 then s3\<lparr>dispatched := dispatched s3 @ [packet_from_spi s3]\<rparr> else s3) =
     (if c1 then tl (packet_to_spi_queue s1) else packet_to_spi_queue s1)"
  by (simp_all add: Let_def)

lemma iteration_shape:
  "\<exists>request n s0 ret pkt s1.
     transceive dev request (replicate SIZEOF_PACKET 0) n s0 = (ret, pkt, s1) \<and>
     slaves s0 = slaves s \<and> calls s0 = calls s \<and> slave_num s0 = slave_num s \<and>
     packet_to_spi_queue s0 = packet_to_spi_queue s \<and>
     (case packet_to_spi_queue s of
        [] \<Rightarrow> n = unat (stack_address_cycle s) \<and>
              stack_address_cycle s0 =
                (if stack_address_cycle s + 1 \<ge> slave_num s then 0 else stack_address_cycle s + 1)
      | e # _ \<Rightarrow> n = fst e \<and> stack_address_cycle s0 = stack_address_cycle s) \<and>
     slaves (spi_thread_iteration dev s) = slaves s1 \<and>
     calls (spi_thread_iteration dev s) = calls s1 \<and>
     slave_num (spi_thread_iteration dev s) = slave_num s1 \<and>
     stack_address_cycle (spi_thread_iteration dev s) = stack_address_cycle s1 \<and>
     (packet_to_spi_queue (spi_thread_iteration dev s) = packet_to_spi_queue s1 \<or>
      packet_to_spi_queue (spi_thread_iteration dev s) = tl (packet_to_spi_queue s1))"
proof (cases "packet_to_spi_queue s")
  case Nil
  define s0 where "s0 = s\<lparr>packet_from_spi := replicate SIZEOF_PACKET 0,
     stack_address_cycle := (if stack_address_cycle s + 1 \<ge> slave_num s then 0
                             else stack_address_cycle s + 1)\<rparr>"
  obtain ret pkt s1 where t: "transceive dev None (replicate SIZEOF_PACKET 0)
      (unat (stack_address_cycle s)) s0 = (ret, pkt, s1)"
    by (cases "transceive dev None (replicate SIZEOF_PACKET 0) (unat (stack_address_cycle s)) s0")
  have f: "slaves s0 = slaves s \<and> calls s0 = calls s \<and> slave_num s0 = slave_num s \<and>
     packet_to_spi_queue s0 = packet_to_spi_queue s \<and>
     stack_address_cycle s0 =
                (if stack_address_cycle s + 1 \<ge> slave_num s then 0 else stack_address_cycle s + 1)"
    by (simp add: s0_def)
  have g: "slaves (spi_thread_iteration dev s) = slaves s1 \<and>
     calls (spi_thread_iteration dev s) = calls s1 \<and>
     slave_num (spi_thread_iteration dev s) = slave_num s1 \<and>
     stack_address_cycle (spi_thread_iteration dev s) = stack_address_cycle s1 \<and>
     (packet_to_spi_queue (spi_thread_iteration dev s) = packet_to_spi_queue s1 \<or>
      packet_to_spi_queue (spi_thread_iteration dev s) = tl (packet_to_spi_queue s1))"
    unfolding iteration_idle [OF Nil] s0_def [symmetric] t
    by (simp add: iteration_tail del: Let_def split del: if_split) simp
  show ?thesis
    apply (rule exI [of _ None], rule exI [of _ "unat (stack_address_cycle s)"],
        rule exI [of _ s0], rule exI [of _ ret], rule exI [of _ pkt], rule exI [of _ s1])
    using t f g Nil by simp
next
  case (Cons e rest)
  define s0 where "s0 = s\<lparr>packet_from_spi := replicate SIZEOF_PACKET 0\<rparr>"
  obtain ret pkt s1 where t: "transceive dev (Some (snd e)) (replicate SIZEOF_PACKET 0)
      (fst e) s0 = (ret, pkt, s1)"
    by (cases "transceive dev (Some (snd e)) (replicate SIZEOF_PACKET 0) (fst e) s0")
  have q: "packet_to_spi_queue s = (fst e, snd e) # rest" using Cons by simp
  have f: "slaves s0 = slaves s \<and> calls s0 = calls s \<and> slave_num s0 = slave_num s \<and>
     packet_to_spi_queue s0 = packet_to_spi_queue s \<and>
     stack_address_cycle s0 = stack_address_cycle s"
    by (simp add: s0_def)
  have g: "slaves (spi_thread_iteration dev s) = slaves s1 \<and>
     calls (spi_thread_iteration dev s) = calls s1 \<and>
     slave_num (spi_thread_iteration dev s) = slave_num s1 \<and>
     stack_address_cycle (spi_thread_iteration dev s) = stack_address_cycle s1 \<and>
     (packet_to_spi_queue (spi_thread_iteration dev s) = packet_to_spi_queue s1 \<or>
      packet_to_spi_queue (spi_thread_iteration dev s) = tl (packet_to_spi_queue s1))"
    unfolding iteration_queued [OF q] s0_def [symmetric] t
    by (simp add: iteration_tail del: Let_def split del: if_split) simp
  show ?thesis
    apply (rule exI [of _ "Some (snd e)"], rule exI [of _ "fst e"],
        rule exI [of _ s0], rule exI [of _ ret], rule exI [of _ pkt], rule exI [of _ s1])
    using t f g Cons by simp
qed

lemma uids_ok_status [simp]: "uids_ok (sl\<lparr>status := st\<rparr>) = uids_ok sl"
  by (simp add: uids_ok_def)

lemma inv_iteration:
  assumes inv: "stack_inv s" and nz: "slave_num s \<noteq> 0"
  shows "stack_inv (spi_thread_iteration dev s)"
proof -
  from iteration_shape [of dev s] obtain request n s0 ret pkt s1 where
    t: "transceive dev request (replicate SIZEOF_PACKET 0) n s0 = (ret, pkt, s1)"
    and f: "slaves s0 = slaves s" "calls s0 = calls s" "slave_num s0 = slave_num s"
      "packet_to_spi_queue s0 = packet_to_spi_queue s"
    and c: "case packet_to_spi_queue s of
        [] \<Rightarrow> n = unat (stack_address_cycle s) \<and>
              stack_address_cycle s0 =
                (if stack_address_cycle s + 1 \<ge> slave_num s then 0 else stack_address_cycle s + 1)
      | e # _ \<Rightarrow> n = fst e \<and> stack_address_cycle s0 = stack_address_cycle s"
    and g: "slaves (spi_thread_iteration dev s) = slaves s1"
      "calls (spi_thread_iteration dev s) = calls s1"
      "slave_num (spi_thread_iteration dev s) = slave_num s1"
      "stack_address_cycle (spi_thread_iteration dev s) = stack_address_cycle s1"
    and q: "packet_to_spi_queue (spi_thread_iteration dev s) = packet_to_spi_queue s1 \<or>
      packet_to_spi_queue (spi_thread_iteration dev s) = tl (packet_to_spi_queue s1)"
    by blast
  define k where "k = unat (slave_num s)"
  have len: "length (slaves s) = 8" and k8: "k \<le> 8"
    and present: "\<forall>m < k. status (slaves s ! m) \<noteq> RED_STACK_SLAVE_STATUS_ABSENT \<and>
                   uids_ok (slaves s ! m)"
    and absent: "\<forall>m. k \<le> m \<and> m < 8 \<longrightarrow> slaves s ! m = init_slave m"
    and queue: "\<forall>e \<in> set (packet_to_spi_queue s). fst e < k"
    and cyc: "unat (stack_address_cycle s) < k"
    and cl: "\<forall>c \<in> set (calls s). call_status c \<noteq> RED_STACK_SLAVE_STATUS_ABSENT"
    using inv nz by (simp_all add: stack_inv_def k_def red_stack_consts)
  have n: "n < k \<and> unat (stack_address_cycle s0) < k"
  proof (cases "packet_to_spi_queue s")
    case Nil
    have "0 < k" using nz by (simp add: k_def unat_gt_0)
    moreover have "\<not> stack_address_cycle s + 1 \<ge> slave_num s \<Longrightarrow>
                   unat (stack_address_cycle s + 1) < k"
      by (simp add: k_def word_less_nat_alt not_le)
    ultimately show ?thesis using c cyc Nil by auto
  next
    case (Cons e rest)
    then show ?thesis using c queue cyc by auto
  qed
  then have nl: "n < length (slaves s0)" using k8 len f(1) by simp
  have st: "status (slaves s0 ! n) \<noteq> RED_STACK_SLAVE_STATUS_ABSENT"
    using present n f(1) by simp
  from transceive_step [OF st t] obtain c1 where
    p: "probe_step n (request \<noteq> None) s0 s1 [c1]" by blast
  from probe_stepD [OF p nl] obtain st1 where
    st1: "st1 \<noteq> RED_STACK_SLAVE_STATUS_ABSENT"
    and sl1: "slaves s1 = (slaves s)[n := (slaves s ! n)\<lparr>status := st1\<rparr>]"
    and c1: "calls s1 = calls s @ [c1]"
    and cs1: "call_status c1 \<noteq> RED_STACK_SLAVE_STATUS_ABSENT"
    unfolding f by auto
  note fr = transceive_frame [OF t]
  have sn: "unat (slave_num (spi_thread_iteration dev s)) = k"
    and snz: "slave_num (spi_thread_iteration dev s) = slave_num s"
    using g(3) fr f(3) by (simp_all add: k_def)
  have a1: "length (slaves (spi_thread_iteration dev s)) = 8"
    by (simp add: g(1) sl1 len)
  have a2: "\<forall>m < k. status (slaves (spi_thread_iteration dev s) ! m) \<noteq>
               RED_STACK_SLAVE_STATUS_ABSENT \<and> uids_ok (slaves (spi_thread_iteration dev s) ! m)"
  proof (intro allI impI)
    fix m assume m: "m < k"
    show "status (slaves (spi_thread_iteration dev s) ! m) \<noteq>
               RED_STACK_SLAVE_STATUS_ABSENT \<and> uids_ok (slaves (spi_thread_iteration dev s) ! m)"
      using present m st1 len k8 by (cases "m = n") (simp_all add: g(1) sl1)
  qed
  have a3: "\<forall>m. k \<le> m \<and> m < 8 \<longrightarrow> slaves (spi_thread_iteration dev s) ! m = init_slave m"
    using absent n by (auto simp add: g(1) sl1)
  have a4: "\<forall>e \<in> set (packet_to_spi_queue (spi_thread_iteration dev s)). fst e < k"
  proof -
    have "set (packet_to_spi_queue (spi_thread_iteration dev s)) \<subseteq> set (packet_to_spi_queue s)"
      using q fr f(4) by (cases "packet_to_spi_queue s") auto
    then show ?thesis using queue by blast
  qed
  have a5: "unat (stack_address_cycle (spi_thread_iteration dev s)) < k"
    using n fr by (simp add: g(4))
  have a6: "\<forall>c \<in> set (calls (spi_thread_iteration dev s)).
              call_status c \<noteq> RED_STACK_SLAVE_STATUS_ABSENT"
    using cl cs1 by (simp add: g(2) c1)
  show ?thesis
    unfolding stack_inv_def sn
    using a1 a2 a3 a4 a5 a6 k8 by (simp add: red_stack_consts)
qed

lemma running_inv:
  assumes "running dev uninit d s"
  shows "stack_inv s"
  using assms
proof (induction rule: running.induct)
  case (run_discovered s)
  then show ?case by (rule inv_discovered)
next
  case (run_dispatch s request)
  then show ?case by (simp add: inv_dispatch)
next
  case (run_iteration s)
  then show ?case by (simp add: inv_iteration)
qed

text \<open>
  C9. In every state that the discovery and the polling loop reach, with requests
  dispatched by the event thread at any time, every call of the transceiver that
  reached the SPI transfer, and so selected its slave, was on a slave that was
  available or busy when called: an absent slave is never selected.
\<close>

theorem absent_slave_never_selected:
  assumes "running dev uninit d s"
  shows "\<forall>c \<in> set (calls s). call_tx c \<noteq> None \<longrightarrow>
           call_status c = RED_STACK_SLAVE_STATUS_AVAILABLE \<or>
           call_status c = RED_STACK_SLAVE_STATUS_AVAILABLE_BUSY"
  using running_inv [OF assms] by (simp add: stack_inv_def not_absent)

lemma uids_ok_init: "uids_ok (init_slave n)"
  by (simp add: uids_ok_def init_slave_def)

lemma count_prefix:
  assumes "\<forall>i < length xs. P (xs ! i) \<longleftrightarrow> i < k" and "k \<le> length xs"
  shows "length (filter P xs) = k"
proof -
  have a: "\<forall>x \<in> set (take k xs). P x"
    using assms by (auto simp add: in_set_conv_nth)
  have b: "\<forall>x \<in> set (drop k xs). \<not> P x"
    using assms by (auto simp add: in_set_conv_nth)
  have "filter P xs = filter P (take k xs) @ filter P (drop k xs)"
    by (metis append_take_drop_id filter_append)
  also have "\<dots> = take k xs" using a b by (simp add: filter_empty_conv)
  finally show ?thesis using assms(2) by simp
qed

lemma uids_ok_knows:
  assumes "uids_ok sl" and "slave_knows sl uid"
  shows "uid \<noteq> 0"
proof -
  from assms(2) obtain iu where iu: "iu < unat (uids_num sl)" "uids sl ! iu = uid"
    by (auto simp add: slave_knows_def)
  then have "iu < PACKET_STACK_ENUMERATE_MAX_UIDS" using assms(1) by (simp add: uids_ok_def)
  moreover have "\<forall>i < PACKET_STACK_ENUMERATE_MAX_UIDS.
                  uids sl ! i \<noteq> 0 \<longleftrightarrow> i < unat (uids_num sl)"
    using assms(1) by (simp add: uids_ok_def)
  ultimately have "uids sl ! iu \<noteq> 0 \<longleftrightarrow> iu < unat (uids_num sl)" by blast
  then show ?thesis using iu by simp
qed

text \<open>
  C6. In every such state, each slave holds at most 16 UIDs, \<^verbatim>\<open>uids_num\<close> is the
  number of non-zero entries of its array, every UID a slave knows is non-zero, and
  \<^verbatim>\<open>red_stack_spi_get_slave_for_uid\<close> returns for it the first slot whose slave
  knows it, a slot below \<^verbatim>\<open>slave_num\<close> whose slave is not absent.
\<close>

theorem registered_uids:
  assumes "running dev uninit d s"
  shows "\<forall>n < RED_STACK_SPI_MAX_SLAVES.
           unat (uids_num (slaves s ! n)) \<le> PACKET_STACK_ENUMERATE_MAX_UIDS \<and>
           length (filter (\<lambda>u. u \<noteq> 0) (uids (slaves s ! n))) = unat (uids_num (slaves s ! n)) \<and>
           (\<forall>uid. slave_knows (slaves s ! n) uid \<longrightarrow>
              uid \<noteq> 0 \<and>
              (\<exists>k \<le> n. red_stack_spi_get_slave_for_uid s uid = Some k \<and>
                        k < unat (slave_num s) \<and>
                        status (slaves s ! k) \<noteq> RED_STACK_SLAVE_STATUS_ABSENT \<and>
                        slave_knows (slaves s ! k) uid \<and>
                        (\<forall>j < k. \<not> slave_knows (slaves s ! j) uid)))"
proof (intro allI impI)
  fix n assume n: "n < RED_STACK_SPI_MAX_SLAVES"
  note inv = running_inv [OF assms]
  have ok: "uids_ok (slaves s ! n)"
    using inv n uids_ok_init [of n] by (cases "n < unat (slave_num s)") (auto simp add: stack_inv_def)
  have c: "length (filter (\<lambda>u. u \<noteq> 0) (uids (slaves s ! n))) = unat (uids_num (slaves s ! n))"
    using ok by (intro count_prefix) (simp_all add: uids_ok_def)
  have k: "uid \<noteq> 0 \<and>
              (\<exists>k \<le> n. red_stack_spi_get_slave_for_uid s uid = Some k \<and>
                        k < unat (slave_num s) \<and>
                        status (slaves s ! k) \<noteq> RED_STACK_SLAVE_STATUS_ABSENT \<and>
                        slave_knows (slaves s ! k) uid \<and>
                        (\<forall>j < k. \<not> slave_knows (slaves s ! j) uid))"
    if kn: "slave_knows (slaves s ! n) uid" for uid
  proof -
    have present: "n < unat (slave_num s)"
    proof (rule ccontr)
      assume "\<not> n < unat (slave_num s)"
      then have "slaves s ! n = init_slave n" using inv n by (simp add: stack_inv_def)
      then show False using kn by (simp add: slave_knows_def init_slave_def)
    qed
    then have "red_stack_spi_get_slave_for_uid s uid \<noteq> None"
      using kn by (auto simp add: red_stack_spi_get_slave_for_uid_def slave_loop_None)
    then obtain k where k: "red_stack_spi_get_slave_for_uid s uid = Some k" by auto
    then have f: "slave_knows (slaves s ! k) uid" "\<forall>j < k. \<not> slave_knows (slaves s ! j) uid"
      "k < unat (slave_num s)"
      by (simp_all add: red_stack_spi_get_slave_for_uid_def slave_loop_Some)
    have st: "status (slaves s ! k) \<noteq> RED_STACK_SLAVE_STATUS_ABSENT"
      using inv f(3) by (simp add: stack_inv_def)
    have "k \<le> n" using f(2) kn by (meson not_le)
    then show ?thesis using uids_ok_knows [OF ok kn] k f st by blast
  qed
  show "unat (uids_num (slaves s ! n)) \<le> PACKET_STACK_ENUMERATE_MAX_UIDS \<and>
           length (filter (\<lambda>u. u \<noteq> 0) (uids (slaves s ! n))) = unat (uids_num (slaves s ! n)) \<and>
           (\<forall>uid. slave_knows (slaves s ! n) uid \<longrightarrow>
              uid \<noteq> 0 \<and>
              (\<exists>k \<le> n. red_stack_spi_get_slave_for_uid s uid = Some k \<and>
                        k < unat (slave_num s) \<and>
                        status (slaves s ! k) \<noteq> RED_STACK_SLAVE_STATUS_ABSENT \<and>
                        slave_knows (slaves s ! k) uid \<and>
                        (\<forall>j < k. \<not> slave_knows (slaves s ! j) uid)))"
    using ok c k by (simp add: uids_ok_def)
qed

subsection \<open>The discovery on a device with one slave\<close>

lemma one_slave_stack_eq:
  "one_slave_stack =
     \<lparr>slaves = (map init_slave [0..<8])
                 [0 := (init_slave 0)\<lparr>status := RED_STACK_SLAVE_STATUS_AVAILABLE,
                                       uids := [1, 2] @ replicate 14 0, uids_num := 2\<rparr>],
      slave_num = 1, packet_from_spi = replicate 80 0, packet_to_spi_queue = [],
      stack_address_cycle = 0, spi_state = (), base_uids = [1, 2], dispatched = [], log = [],
      calls =
        [\<lparr>call_slave = 0, call_status = RED_STACK_SLAVE_STATUS_AVAILABLE, call_request = True,
          call_retval = 276,
          call_tx = Some ([0xAA, 12, 0, 0, 0, 0, 8, 252, 8, 0, 0, 146] @ replicate 72 0)\<rparr>,
         \<lparr>call_slave = 0, call_status = RED_STACK_SLAVE_STATUS_AVAILABLE, call_request = False,
          call_retval = 155, call_tx = Some poll_frame\<rparr>,
         \<lparr>call_slave = 1, call_status = RED_STACK_SLAVE_STATUS_AVAILABLE, call_request = True,
          call_retval = 276,
          call_tx = Some ([0xAA, 12, 0, 0, 0, 0, 8, 252, 8, 0, 0, 146] @ replicate 72 0)\<rparr>] @
        replicate 10
          \<lparr>call_slave = 1, call_status = RED_STACK_SLAVE_STATUS_AVAILABLE, call_request = False,
           call_retval = 19, call_tx = Some poll_frame\<rparr>\<rparr>"
  by code_simp

lemma one_slave_running:
  "running one_slave_device (\<lambda>n. replicate 80 0) () one_slave_stack"
  unfolding one_slave_stack_def by (rule run_discovered [OF boot_init])

theorem discovery_postcondition_witness:
  "booting () (red_stack_init_spi ()) \<and>
   unat (slave_num one_slave_stack) = 1 \<and>
   status (slaves one_slave_stack ! 0) = RED_STACK_SLAVE_STATUS_AVAILABLE \<and>
   failed_sends 0 (calls one_slave_stack) = 0 \<and>
   failed_polls 0 (calls one_slave_stack) = 0 \<and>
   failed_polls 1 (calls one_slave_stack) = 10 \<and>
   status (slaves one_slave_stack ! 1) = RED_STACK_SLAVE_STATUS_ABSENT \<and>
   status (slaves one_slave_stack ! 7) = RED_STACK_SLAVE_STATUS_ABSENT \<and>
   map call_slave (calls one_slave_stack) = [0, 0, 1, 1, 1, 1, 1, 1, 1, 1, 1, 1, 1]"
proof -
  have b: "booting () (red_stack_init_spi ())" by (rule boot_init)
  have u: "unat (slave_num one_slave_stack) = 1" by (simp add: one_slave_stack_eq)
  have c: "map call_slave (calls one_slave_stack) = [0, 0, 1, 1, 1, 1, 1, 1, 1, 1, 1, 1, 1]"
    unfolding one_slave_stack_eq by code_simp
  have f: "failed_sends 0 (calls one_slave_stack) = 0" "failed_polls 0 (calls one_slave_stack) = 0"
      "failed_polls 1 (calls one_slave_stack) = 10"
    unfolding one_slave_stack_eq by code_simp+
  have s: "status (slaves one_slave_stack ! 0) = RED_STACK_SLAVE_STATUS_AVAILABLE"
    "status (slaves one_slave_stack ! 1) = RED_STACK_SLAVE_STATUS_ABSENT"
    "status (slaves one_slave_stack ! 7) = RED_STACK_SLAVE_STATUS_ABSENT"
    unfolding one_slave_stack_eq by code_simp+
  show ?thesis
    using discovery_postcondition [OF b one_slave_stack_def] b u c f s
    by (simp add: red_stack_consts)
qed

theorem registered_uids_witness:
  "running one_slave_device (\<lambda>n. replicate 80 0) () one_slave_stack \<and>
   slave_knows (slaves one_slave_stack ! 0) 2 \<and>
   red_stack_spi_get_slave_for_uid one_slave_stack 2 = Some 0 \<and>
   unat (uids_num (slaves one_slave_stack ! 0)) = 2 \<and>
   length (filter (\<lambda>u. u \<noteq> 0) (uids (slaves one_slave_stack ! 0))) = 2"
proof -
  have "uid_loop (slaves one_slave_stack ! 0) 2 0"
    unfolding one_slave_stack_eq by code_simp
  then have k: "slave_knows (slaves one_slave_stack ! 0) 2" by (simp add: uid_loop_knows)
  have g: "red_stack_spi_get_slave_for_uid one_slave_stack 2 = Some 0"
    and u: "unat (uids_num (slaves one_slave_stack ! 0)) = 2"
    and l: "length (filter (\<lambda>u. u \<noteq> 0) (uids (slaves one_slave_stack ! 0))) = 2"
    unfolding one_slave_stack_eq by code_simp+
  show ?thesis
    using registered_uids [OF one_slave_running] one_slave_running k g u l
    by (simp add: red_stack_consts)
qed

theorem absent_slave_never_selected_witness:
  "running one_slave_device (\<lambda>n. replicate 80 0) ()
     (spi_thread_iteration one_slave_device one_slave_stack) \<and>
   length (calls (spi_thread_iteration one_slave_device one_slave_stack)) = 14 \<and>
   call_slave (last (calls (spi_thread_iteration one_slave_device one_slave_stack))) = 0 \<and>
   call_tx (last (calls (spi_thread_iteration one_slave_device one_slave_stack))) = Some poll_frame \<and>
   call_status (last (calls (spi_thread_iteration one_slave_device one_slave_stack))) =
     RED_STACK_SLAVE_STATUS_AVAILABLE"
proof -
  have nz: "slave_num one_slave_stack \<noteq> 0" by (simp add: one_slave_stack_eq)
  have r: "running one_slave_device (\<lambda>n. replicate 80 0) ()
     (spi_thread_iteration one_slave_device one_slave_stack)"
    by (rule run_iteration [OF one_slave_running nz])
  have e: "length (calls (spi_thread_iteration one_slave_device one_slave_stack)) = 14"
    "call_slave (last (calls (spi_thread_iteration one_slave_device one_slave_stack))) = 0"
    "call_tx (last (calls (spi_thread_iteration one_slave_device one_slave_stack))) = Some poll_frame"
    "call_status (last (calls (spi_thread_iteration one_slave_device one_slave_stack))) =
       RED_STACK_SLAVE_STATUS_AVAILABLE"
    unfolding one_slave_stack_eq by code_simp+
  show ?thesis
    using absent_slave_never_selected [OF r] r e by simp
qed

end
